theory Spec2Isabelle
  imports Complex_Main
begin

section \<open>Values, errors and bindings\<close>

text \<open>
  Python numbers are modelled as mathematical reals, with the float \<open>nan\<close> that
  \<open>DivideExpression.operate\<close> returns as a value of its own. Rounding and overflow
  of floats are not modelled. A constant's \<open>value\<close> may be \<open>None\<close>, so the
  values that flow through \<open>evaluate\<close> are \<open>pynum option\<close>.
\<close>

datatype pynum = PyNum real | PyNaN

text \<open>
  Every \<open>raise\<close> of the source, and every failure of the Python runtime the source
  can run into, is a value. \<open>OutOfFuel\<close> stands for a recursion or a loop that does
  not end within the given fuel.
\<close>

datatype error =
    OutOfFuel
  | AttributeError
  | KeyError string
  | IndexError
  | TypeError
  | ValueError string
  | Exception string
  | InapplicableRule

text \<open>An error ends a sequence of steps, as a raised exception does.\<close>

definition bind_err :: "error + 'a \<Rightarrow> ('a \<Rightarrow> error + 'b) \<Rightarrow> error + 'b" where
  "bind_err m f = (case m of Inl e \<Rightarrow> Inl e | Inr x \<Rightarrow> f x)"

text \<open>The \<open>context\<close> argument of \<open>evaluate\<close>: \<open>None\<close>, or a dictionary.\<close>

type_synonym bindings = "(string \<times> pynum) list option"

fun truthy :: "pynum \<Rightarrow> bool" where
  "truthy (PyNum r) = (r \<noteq> 0)"
| "truthy PyNaN = True"

fun py_add :: "pynum \<Rightarrow> pynum \<Rightarrow> pynum" where
  "py_add (PyNum a) (PyNum b) = PyNum (a + b)"
| "py_add _ _ = PyNaN"

fun py_sub :: "pynum \<Rightarrow> pynum \<Rightarrow> pynum" where
  "py_sub (PyNum a) (PyNum b) = PyNum (a - b)"
| "py_sub _ _ = PyNaN"

fun py_mul :: "pynum \<Rightarrow> pynum \<Rightarrow> pynum" where
  "py_mul (PyNum a) (PyNum b) = PyNum (a * b)"
| "py_mul _ _ = PyNaN"

fun py_div :: "pynum \<Rightarrow> pynum \<Rightarrow> pynum" where
  "py_div (PyNum a) (PyNum b) = PyNum (a / b)"
| "py_div _ _ = PyNaN"

fun py_neg :: "pynum \<Rightarrow> pynum" where
  "py_neg (PyNum a) = PyNum (- a)"
| "py_neg PyNaN = PyNaN"

fun py_abs :: "pynum \<Rightarrow> pynum" where
  "py_abs (PyNum a) = PyNum \<bar>a\<bar>"
| "py_abs PyNaN = PyNaN"

section \<open>Tree nodes on a heap\<close>

text \<open>
  Expression nodes are Python objects that refer to each other (\<open>left\<close>,
  \<open>right\<close>, \<open>parent\<close>) and are mutated in place, so they live in an explicit
  store: an address is a natural number, and every attribute the classes of
  \<open>expressions.py\<close> set is a field. The abstract classes (\<open>MathExpression\<close>,
  \<open>UnaryExpression\<close>, \<open>FunctionExpression\<close>, \<open>BinaryExpression\<close>) have no
  instances; \<open>kind\<close> lists the concrete ones.
\<close>

type_synonym addr = nat

datatype kind =
    NegateExpression
  | AbsExpression
  | SgnExpression
  | EqualExpression
  | AddExpression
  | SubtractExpression
  | MultiplyExpression
  | DivideExpression
  | PowerExpression
  | ConstantExpression
  | VariableExpression

record node =
  kind :: kind
  left :: "addr option"
  right :: "addr option"
  parent :: "addr option"
  rendering_change :: "bool option"
  changed :: bool
  cloned_node :: "addr option"
  cloned_target :: "string option"
  child :: "addr option"
  operatorleft :: bool
  const_value :: "pynum option"
  ident :: "string option"

record heap =
  cells :: "addr \<Rightarrow> node"
  next_free :: addr

definition blank :: "kind \<Rightarrow> node" where
  "blank k = \<lparr>kind = k, left = None, right = None, parent = None,
     rendering_change = None, changed = False, cloned_node = None, cloned_target = None,
     child = None, operatorleft = True, const_value = None, ident = None\<rparr>"

definition empty_heap :: heap where
  "empty_heap = \<lparr>cells = (\<lambda>_. blank ConstantExpression), next_free = 0\<rparr>"

definition upd :: "addr \<Rightarrow> (node \<Rightarrow> node) \<Rightarrow> heap \<Rightarrow> heap" where
  "upd a f h = h\<lparr>cells := (cells h)(a := f (cells h a))\<rparr>"

definition is_binary :: "kind \<Rightarrow> bool" where
  "is_binary k = (k = EqualExpression \<or> k = AddExpression \<or> k = SubtractExpression \<or>
     k = MultiplyExpression \<or> k = DivideExpression \<or> k = PowerExpression)"

definition is_unary :: "kind \<Rightarrow> bool" where
  "is_unary k = (k = NegateExpression \<or> k = AbsExpression \<or> k = SgnExpression)"

text \<open>\<open>isinstance(x, K)\<close> for a reference \<open>x\<close> that may be \<open>None\<close>.\<close>

definition isinstance :: "heap \<Rightarrow> addr option \<Rightarrow> kind \<Rightarrow> bool" where
  "isinstance h x k = (case x of None \<Rightarrow> False | Some a \<Rightarrow> kind (cells h a) = k)"

subsection \<open>Link setters\<close>

text \<open>
  Modelled from the spec: \<open>BinaryTreeNode.set_left\<close> and \<open>set_right\<close>
  (\<open>core/tree.py\<close> is not among the sources). The spec, 4.1: "rewire a link and the
  child's parent pointer atomically; passing null detaches".
\<close>

definition set_left :: "addr \<Rightarrow> addr option \<Rightarrow> heap \<Rightarrow> heap" where
  "set_left self c h =
     (let h1 = upd self (\<lambda>n. n\<lparr>left := c\<rparr>) h
      in case c of None \<Rightarrow> h1 | Some ch \<Rightarrow> upd ch (\<lambda>n. n\<lparr>parent := Some self\<rparr>) h1)"

definition set_right :: "addr \<Rightarrow> addr option \<Rightarrow> heap \<Rightarrow> heap" where
  "set_right self c h =
     (let h1 = upd self (\<lambda>n. n\<lparr>right := c\<rparr>) h
      in case c of None \<Rightarrow> h1 | Some ch \<Rightarrow> upd ch (\<lambda>n. n\<lparr>parent := Some self\<rparr>) h1)"

text \<open>
  Modelled from the spec: \<open>BinaryTreeNode.get_root\<close> (\<open>core/tree.py\<close> is not among
  the sources): the node reached by following \<open>parent\<close> until a node has none.
\<close>

fun get_root :: "nat \<Rightarrow> heap \<Rightarrow> addr \<Rightarrow> error + addr" where
  "get_root 0 h a = Inl OutOfFuel"
| "get_root (Suc f) h a =
     (case parent (cells h a) of None \<Rightarrow> Inr a | Some p \<Rightarrow> get_root f h p)"

subsection \<open>Constructors\<close>

text \<open>
  \<open>MathExpression.__init__\<close> allocates the object and sets the attributes of
  lines 92-98. Modelled from the spec: \<open>BinaryTreeNode.__init__\<close>, which it calls,
  installs the two children through the link setters (spec, 3: trees are "mutated only
  through Tree Node's link-setters").
\<close>

definition MathExpression_init :: "kind \<Rightarrow> addr option \<Rightarrow> addr option \<Rightarrow> heap \<Rightarrow> heap \<times> addr" where
  "MathExpression_init k l r h =
     (let a = next_free h;
          h1 = h\<lparr>cells := (cells h)(a := blank k), next_free := Suc a\<rparr>
      in (set_right a r (set_left a l h1), a))"

definition ConstantExpression_init :: "pynum option \<Rightarrow> heap \<Rightarrow> heap \<times> addr" where
  "ConstantExpression_init v h =
     (case MathExpression_init ConstantExpression None None h of
        (h1, a) \<Rightarrow> (upd a (\<lambda>n. n\<lparr>const_value := v\<rparr>) h1, a))"

definition VariableExpression_init :: "string option \<Rightarrow> heap \<Rightarrow> heap \<times> addr" where
  "VariableExpression_init x h =
     (case MathExpression_init VariableExpression None None h of
        (h1, a) \<Rightarrow> (upd a (\<lambda>n. n\<lparr>ident := x\<rparr>) h1, a))"

definition BinaryExpression_init :: "kind \<Rightarrow> addr option \<Rightarrow> addr option \<Rightarrow> heap \<Rightarrow> heap \<times> addr" where
  "BinaryExpression_init k l r h = MathExpression_init k l r h"

definition set_child :: "addr \<Rightarrow> addr option \<Rightarrow> heap \<Rightarrow> heap" where
  "set_child self c h =
     (if operatorleft (cells h self) then set_left self c h else set_right self c h)"

definition get_child :: "node \<Rightarrow> addr option" where
  "get_child n = (if operatorleft n then left n else right n)"

definition UnaryExpression_init :: "kind \<Rightarrow> addr option \<Rightarrow> bool \<Rightarrow> heap \<Rightarrow> heap \<times> addr" where
  "UnaryExpression_init k c opleft h =
     (case MathExpression_init k None None h of
        (h1, a) \<Rightarrow>
          (set_child a c (upd a (\<lambda>n. n\<lparr>child := c, operatorleft := opleft\<rparr>) h1), a))"

section \<open>Evaluation\<close>

text \<open>
  \<open>VariableExpression.evaluate\<close>, lines 743-749: the guard is
  \<open>context and context[self.identifier]\<close>. An empty or missing dictionary is falsy;
  a dictionary without the key raises \<open>KeyError\<close>; a bound value that is falsy (zero)
  falls through to the \<open>raise Exception\<close>.
\<close>

definition unbound_message :: string where
  "unbound_message = ''cannot evaluate statement with None variable''"

definition VariableExpression_evaluate :: "bindings \<Rightarrow> string option \<Rightarrow> error + pynum option" where
  "VariableExpression_evaluate ctx name =
     (case ctx of
        None \<Rightarrow> Inl (Exception unbound_message)
      | Some d \<Rightarrow>
          if d = [] then Inl (Exception unbound_message)
          else (case name of
                  None \<Rightarrow> Inl (KeyError ''None'')
                | Some x \<Rightarrow>
                    (case map_of d x of
                       None \<Rightarrow> Inl (KeyError x)
                     | Some v \<Rightarrow> if truthy v then Inr (Some v)
                                else Inl (Exception unbound_message))))"

text \<open>
  The \<open>operate\<close> methods. An operand that is \<open>None\<close> makes Python's arithmetic
  raise \<open>TypeError\<close>. \<open>numpy.power\<close> belongs to an external library and is a
  parameter \<open>pw\<close> of the model.
\<close>

type_synonym power_fn = "pynum option \<Rightarrow> pynum option \<Rightarrow> error + pynum option"

definition arith2 :: "(pynum \<Rightarrow> pynum \<Rightarrow> pynum) \<Rightarrow> pynum option \<Rightarrow> pynum option \<Rightarrow> error + pynum option" where
  "arith2 f one two =
     (case one of None \<Rightarrow> Inl TypeError
      | Some x \<Rightarrow> (case two of None \<Rightarrow> Inl TypeError | Some y \<Rightarrow> Inr (Some (f x y))))"

definition unsupported_message :: string where
  "unsupported_message = ''Unsupported operation. Euqality has no operation to perform.''"

definition operate2 :: "power_fn \<Rightarrow> kind \<Rightarrow> pynum option \<Rightarrow> pynum option \<Rightarrow> error + pynum option" where
  "operate2 pw k one two =
     (if k = AddExpression then arith2 py_add one two
      else if k = SubtractExpression then arith2 py_sub one two
      else if k = MultiplyExpression then arith2 py_mul one two
      else if k = DivideExpression then
        (if two = Some (PyNum 0) then Inr (Some PyNaN) else arith2 py_div one two)
      else if k = PowerExpression then pw one two
      else Inl (Exception unsupported_message))"

definition sgn_operate :: "pynum \<Rightarrow> pynum" where
  "sgn_operate v =
     (case v of
        PyNaN \<Rightarrow> PyNum 0
      | PyNum r \<Rightarrow> if r < 0 then PyNum (- 1) else if r > 0 then PyNum 1 else PyNum 0)"

definition operate1 :: "kind \<Rightarrow> pynum option \<Rightarrow> error + pynum option" where
  "operate1 k v =
     (case v of
        None \<Rightarrow> Inl TypeError
      | Some x \<Rightarrow>
          if k = NegateExpression then Inr (Some (py_neg x))
          else if k = AbsExpression then Inr (Some (py_abs x))
          else Inr (Some (sgn_operate x)))"

text \<open>
  \<open>evaluate\<close>, by kind: \<open>ConstantExpression\<close> (line 697), \<open>VariableExpression\<close>
  (743), \<open>UnaryExpression\<close> (336) and \<open>BinaryExpression\<close> (404). A missing child is
  \<open>None\<close>, and calling \<open>.evaluate\<close> on it raises \<open>AttributeError\<close>; the left
  operand is evaluated before the right one.
\<close>

fun evaluate :: "power_fn \<Rightarrow> nat \<Rightarrow> heap \<Rightarrow> bindings \<Rightarrow> addr \<Rightarrow> error + pynum option" where
  "evaluate pw 0 h ctx a = Inl OutOfFuel"
| "evaluate pw (Suc f) h ctx a =
     (let n = cells h a in
      if kind n = ConstantExpression then Inr (const_value n)
      else if kind n = VariableExpression then VariableExpression_evaluate ctx (ident n)
      else if is_unary (kind n) then
        (case get_child n of
           None \<Rightarrow> Inl AttributeError
         | Some c \<Rightarrow>
             (case evaluate pw f h ctx c of
                Inl e \<Rightarrow> Inl e
              | Inr v \<Rightarrow> operate1 (kind n) v))
      else
        (case left n of
           None \<Rightarrow> Inl AttributeError
         | Some l \<Rightarrow>
             (case evaluate pw f h ctx l of
                Inl e \<Rightarrow> Inl e
              | Inr one \<Rightarrow>
                  (case right n of
                     None \<Rightarrow> Inl AttributeError
                   | Some r \<Rightarrow>
                       (case evaluate pw f h ctx r of
                          Inl e \<Rightarrow> Inl e
                        | Inr two \<Rightarrow> operate2 pw (kind n) one two)))))"

section \<open>The commutative swap rule\<close>

text \<open>
  Modelled from the spec: the change record and \<open>BaseRule.apply_to\<close>
  (\<open>core/rule.py\<close> is not among the sources). The spec, 3: a change "holds references
  to the subtree before and the subtree after the rewrite, plus the (possibly different)
  tree root after"; 4.4: \<open>apply_to\<close> has the precondition that \<open>can_apply_to\<close> is
  true, and "violating the precondition fails with InapplicableRule".
\<close>

record change =
  before :: addr
  after :: "addr option"
  root :: "addr option"

text \<open>\<open>CommutativeSwapRule.can_apply_to\<close>, lines 44-64.\<close>

definition can_apply_to :: "bool \<Rightarrow> heap \<Rightarrow> addr \<Rightarrow> bool" where
  "can_apply_to preferred h a =
     (let node = cells h a in
      if kind node = AddExpression then True
      else if kind node \<noteq> MultiplyExpression then False
      else if \<not> preferred then
        (let left_const = isinstance h (left node) ConstantExpression;
             right_var = isinstance h (right node) VariableExpression
         in if left_const \<and> right_var then False
            else if isinstance h (right node) PowerExpression then
              (let right_left_var =
                     isinstance h (left (cells h (the (right node)))) VariableExpression;
                   right_right_const =
                     isinstance h (right (cells h (the (right node)))) ConstantExpression
               in if right_left_var \<and> right_right_const then False else True)
            else True)
      else True)"

definition BaseRule_apply_to :: "bool \<Rightarrow> heap \<Rightarrow> addr \<Rightarrow> error + change" where
  "BaseRule_apply_to preferred h a =
     (if can_apply_to preferred h a
      then Inr \<lparr>before = a, after = None, root = None\<rparr>
      else Inl InapplicableRule)"

definition done_change :: "nat \<Rightarrow> heap \<Rightarrow> change \<Rightarrow> addr \<Rightarrow> error + change" where
  "done_change fuel h c a =
     (case get_root fuel h a of
        Inl e \<Rightarrow> Inl e
      | Inr r \<Rightarrow> Inr (c\<lparr>after := Some a, root := Some r\<rparr>))"

definition set_changed :: "addr \<Rightarrow> heap \<Rightarrow> heap" where
  "set_changed a h = upd a (\<lambda>n. n\<lparr>changed := True\<rparr>) h"

text \<open>\<open>CommutativeSwapRule.apply_to\<close>, lines 66-76.\<close>

definition apply_to :: "bool \<Rightarrow> nat \<Rightarrow> heap \<Rightarrow> addr \<Rightarrow> error + (heap \<times> change)" where
  "apply_to preferred fuel h node =
     (case BaseRule_apply_to preferred h node of
        Inl e \<Rightarrow> Inl e
      | Inr c \<Rightarrow>
          (let a = left (cells h node);
               b = right (cells h node);
               h1 = set_right node a h;
               h2 = set_left node b h1;
               h3 = set_changed node h2
           in case done_change fuel h3 c node of
                Inl e \<Rightarrow> Inl e
              | Inr c' \<Rightarrow> Inr (h3, c')))"

section \<open>Type ids\<close>

text \<open>\<open>MathTypeKeys\<close> and \<open>MathTypeKeysMax\<close>, lines 13-63.\<close>

definition MathTypeKeys :: "(string \<times> nat) list" where
  "MathTypeKeys =
     [(''empty'', 0), (''negate'', 1), (''equal'', 2), (''add'', 3), (''subtract'', 4),
      (''multiply'', 5), (''divide'', 6), (''power'', 7),
      (''constant_0'', 16), (''constant_1'', 17), (''constant_2'', 18), (''constant_3'', 19),
      (''constant_4'', 20), (''constant_5'', 21), (''constant_6'', 22), (''constant_7'', 23),
      (''constant_8'', 24), (''constant_9'', 25),
      (''variable'', 26),
      (''variable_a'', 27), (''variable_b'', 28), (''variable_c'', 29), (''variable_d'', 30),
      (''variable_e'', 31), (''variable_f'', 32), (''variable_g'', 33), (''variable_h'', 34),
      (''variable_i'', 35), (''variable_j'', 36), (''variable_k'', 37), (''variable_l'', 38),
      (''variable_m'', 39), (''variable_n'', 40), (''variable_o'', 41), (''variable_p'', 42),
      (''variable_q'', 43), (''variable_r'', 44), (''variable_s'', 45), (''variable_t'', 46),
      (''variable_u'', 47), (''variable_v'', 48), (''variable_w'', 49), (''variable_x'', 50),
      (''variable_y'', 51), (''variable_z'', 52)]"

definition MathTypeKeysMax :: nat where
  "MathTypeKeysMax = Max (set (map snd MathTypeKeys))"

definition lookup_key :: "string \<Rightarrow> error + nat" where
  "lookup_key k = (case map_of MathTypeKeys k of None \<Rightarrow> Inl (KeyError k) | Some v \<Rightarrow> Inr v)"

text \<open>
  Python's \<open>value % 10\<close> takes the sign of the divisor. On an \<open>int\<close> it is exact.
  On a \<open>float\<close> the exact result, which lies in \<open>[0, 10)\<close>, is rounded to a float:
  \<open>rnd\<close> is that rounding, a parameter as the other functions from outside are. The
  rounded result lies in \<open>[0, 10]\<close>, and it is \<open>10.0\<close> for a negative value of
  tiny magnitude.
\<close>

definition py_mod10 :: "(real \<Rightarrow> real) \<Rightarrow> real \<Rightarrow> real" where
  "py_mod10 rnd r = rnd (r - 10 * of_int \<lfloor>r / 10\<rfloor>)"

text \<open>\<open>int\<close> of a float drops the fraction, towards zero.\<close>

definition py_int :: "real \<Rightarrow> int" where
  "py_int r = (if 0 \<le> r then \<lfloor>r\<rfloor> else \<lceil>r\<rceil>)"

definition str_digit :: "nat \<Rightarrow> string" where
  "str_digit d = [''0123456789'' ! d]"

text \<open>The decimal text of an integer, as an f-string formats it.\<close>

fun str_nat :: "nat \<Rightarrow> string" where
  "str_nat n = (if n < 10 then str_digit n else str_nat (n div 10) @ str_digit (n mod 10))"

declare str_nat.simps [simp del]

definition str_int :: "int \<Rightarrow> string" where
  "str_int i = (if i < 0 then ''-'' @ str_nat (nat (- i)) else str_nat (nat i))"

text \<open>\<open>str.lower\<close>, on the ASCII letters.\<close>

definition lower_char :: "char \<Rightarrow> char" where
  "lower_char c =
     (case map_of (zip ''ABCDEFGHIJKLMNOPQRSTUVWXYZ'' ''abcdefghijklmnopqrstuvwxyz'') c of
        None \<Rightarrow> c
      | Some l \<Rightarrow> l)"

text \<open>
  The \<open>type_id\<close> properties: lines 349-351 (negate), 510-512, 529-531, 552-554,
  575-577, 623-625, 653-655 (the binary kinds), 683-686 (constant), 712-715 (variable),
  773-775 (abs) and 793-795 (sgn).
\<close>

definition type_id :: "(real \<Rightarrow> real) \<Rightarrow> node \<Rightarrow> error + nat" where
  "type_id rnd n =
     (case kind n of
        NegateExpression \<Rightarrow> lookup_key ''negate''
      | AbsExpression \<Rightarrow> lookup_key ''abs''
      | SgnExpression \<Rightarrow> lookup_key ''sgn''
      | EqualExpression \<Rightarrow> lookup_key ''equal''
      | AddExpression \<Rightarrow> lookup_key ''add''
      | SubtractExpression \<Rightarrow> lookup_key ''subtract''
      | MultiplyExpression \<Rightarrow> lookup_key ''multiply''
      | DivideExpression \<Rightarrow> lookup_key ''divide''
      | PowerExpression \<Rightarrow> lookup_key ''power''
      | ConstantExpression \<Rightarrow>
          (case const_value n of
             None \<Rightarrow> lookup_key ''constant''
           | Some PyNaN \<Rightarrow> Inl (ValueError ''cannot convert float NaN to integer'')
           | Some (PyNum r) \<Rightarrow> lookup_key (''constant_'' @ str_int (py_int (py_mod10 rnd r))))
      | VariableExpression \<Rightarrow>
          (case ident n of
             None \<Rightarrow> lookup_key ''variable''
           | Some s \<Rightarrow>
               (case map lower_char s of
                  [] \<Rightarrow> Inl IndexError
                | c # _ \<Rightarrow> lookup_key (''variable_'' @ [c]))))"

section \<open>Differentiation\<close>

definition abstract_message :: string where
  "abstract_message = ''cannot differentiate an abstract MathExpression node''"

text \<open>
  \<open>differentiate\<close>, by kind: \<open>NegateExpression\<close> (line 363), \<open>AddExpression\<close>
  (543), \<open>SubtractExpression\<close> (566), \<open>MultiplyExpression\<close> (591),
  \<open>DivideExpression\<close> (643), \<open>PowerExpression\<close> (673), \<open>VariableExpression\<close>
  (751), \<open>AbsExpression\<close> (786) and \<open>SgnExpression\<close> (814).
  \<open>ConstantExpression\<close> and \<open>EqualExpression\<close> define none and inherit
  \<open>MathExpression.differentiate\<close> (116), which raises. \<open>AbsExpression\<close> calls
  \<open>self.child.Differentiate\<close>, a method no class has. The new nodes are allocated
  on the heap; a result of \<open>Inl\<close> drops the heap the failed call leaves behind.
  The constructors change the \<open>parent\<close> of a child they are given and no
  \<open>left\<close> or \<open>right\<close> link of an old node, so the links of \<open>self\<close> are
  read once.
\<close>

fun differentiate :: "nat \<Rightarrow> heap \<Rightarrow> addr \<Rightarrow> string \<Rightarrow> error + (heap \<times> addr)" where
  "differentiate 0 h a by_variable = Inl OutOfFuel"
| "differentiate (Suc f) h a by_variable =
     (let n = cells h a in
      case kind n of
        NegateExpression \<Rightarrow>
          (case child n of
             None \<Rightarrow> Inl AttributeError
           | Some c \<Rightarrow>
               (case differentiate f h c by_variable of
                  Inl e \<Rightarrow> Inl e
                | Inr (h1, d) \<Rightarrow> Inr (UnaryExpression_init NegateExpression (Some d) True h1)))
      | AddExpression \<Rightarrow>
          (case left n of
             None \<Rightarrow> Inl AttributeError
           | Some l \<Rightarrow>
               (case differentiate f h l by_variable of
                  Inl e \<Rightarrow> Inl e
                | Inr (h1, dl) \<Rightarrow>
                    (case right n of
                       None \<Rightarrow> Inl AttributeError
                     | Some r \<Rightarrow>
                         (case differentiate f h1 r by_variable of
                            Inl e \<Rightarrow> Inl e
                          | Inr (h2, dr) \<Rightarrow>
                              Inr (BinaryExpression_init AddExpression (Some dl) (Some dr) h2)))))
      | SubtractExpression \<Rightarrow>
          (case left n of
             None \<Rightarrow> Inl AttributeError
           | Some l \<Rightarrow>
               (case differentiate f h l by_variable of
                  Inl e \<Rightarrow> Inl e
                | Inr (h1, dl) \<Rightarrow>
                    (case right n of
                       None \<Rightarrow> Inl AttributeError
                     | Some r \<Rightarrow>
                         (case differentiate f h1 r by_variable of
                            Inl e \<Rightarrow> Inl e
                          | Inr (h2, dr) \<Rightarrow>
                              Inr (BinaryExpression_init AddExpression (Some dl) (Some dr) h2)))))
      | MultiplyExpression \<Rightarrow>
          (case right n of
             None \<Rightarrow> Inl AttributeError
           | Some r \<Rightarrow>
               (case differentiate f h r by_variable of
                  Inl e \<Rightarrow> Inl e
                | Inr (h1, dr) \<Rightarrow>
                    (let (h2, m1) = BinaryExpression_init MultiplyExpression (left n) (Some dr) h1
                     in case left n of
                          None \<Rightarrow> Inl AttributeError
                        | Some l \<Rightarrow>
                            (case differentiate f h2 l by_variable of
                               Inl e \<Rightarrow> Inl e
                             | Inr (h3, dl) \<Rightarrow>
                                 (let (h4, m2) = BinaryExpression_init MultiplyExpression
                                                   (Some dl) (right n) h3
                                  in Inr (BinaryExpression_init AddExpression (Some m1)
                                            (Some m2) h4))))))
      | DivideExpression \<Rightarrow>
          (case left n of
             None \<Rightarrow> Inl AttributeError
           | Some l \<Rightarrow>
               (case differentiate f h l by_variable of
                  Inl e \<Rightarrow> Inl e
                | Inr (h1, dl) \<Rightarrow>
                    (let (h2, gprimeh) = BinaryExpression_init MultiplyExpression
                                           (Some dl) (right n) h1
                     in case right n of
                          None \<Rightarrow> Inl AttributeError
                        | Some r \<Rightarrow>
                            (case differentiate f h2 r by_variable of
                               Inl e \<Rightarrow> Inl e
                             | Inr (h3, dr) \<Rightarrow>
                                 (let (h4, ghprime) = BinaryExpression_init MultiplyExpression
                                                        (left n) (Some dr) h3;
                                      (h5, two) = ConstantExpression_init (Some (PyNum 2)) h4;
                                      (h6, hsquare) = BinaryExpression_init PowerExpression
                                                        (right n) (Some two) h5;
                                      (h7, s) = BinaryExpression_init SubtractExpression
                                                  (Some gprimeh) (Some ghprime) h6
                                  in Inr (BinaryExpression_init DivideExpression (Some s)
                                            (Some hsquare) h7))))))
      | PowerExpression \<Rightarrow> Inl (Exception ''Unimplemented'')
      | ConstantExpression \<Rightarrow> Inl (Exception abstract_message)
      | EqualExpression \<Rightarrow> Inl (Exception abstract_message)
      | VariableExpression \<Rightarrow>
          (if Some by_variable = ident n
           then Inr (ConstantExpression_init (Some (PyNum 1)) h)
           else Inr (ConstantExpression_init (Some (PyNum 0)) h))
      | AbsExpression \<Rightarrow> Inl AttributeError
      | SgnExpression \<Rightarrow> Inr (ConstantExpression_init (Some (PyNum 0)) h))"

section \<open>Rendering\<close>

text \<open>
  \<open>__str__\<close> is \<open>to_text\<close>. Two functions of the Python runtime and of the
  \<open>colr\<close> library are parameters: \<open>fmt\<close> renders a number as
  \<open>"{}".format\<close> does, and \<open>colr\<close> is \<open>color(text, fore="green",
  style="bright")\<close>.
\<close>

definition with_color :: "(string \<Rightarrow> string) \<Rightarrow> node \<Rightarrow> string \<Rightarrow> string" where
  "with_color colr n txt =
     (if rendering_change n = Some True \<and> changed n then colr txt else txt)"

definition class_name :: "kind \<Rightarrow> string" where
  "class_name k =
     (case k of
        NegateExpression \<Rightarrow> ''NegateExpression''
      | AbsExpression \<Rightarrow> ''AbsExpression''
      | SgnExpression \<Rightarrow> ''SgnExpression''
      | EqualExpression \<Rightarrow> ''EqualExpression''
      | AddExpression \<Rightarrow> ''AddExpression''
      | SubtractExpression \<Rightarrow> ''SubtractExpression''
      | MultiplyExpression \<Rightarrow> ''MultiplyExpression''
      | DivideExpression \<Rightarrow> ''DivideExpression''
      | PowerExpression \<Rightarrow> ''PowerExpression''
      | ConstantExpression \<Rightarrow> ''ConstantExpression''
      | VariableExpression \<Rightarrow> ''VariableExpression'')"

text \<open>The \<open>name\<close> properties of the operator and function classes.\<close>

definition op_name :: "kind \<Rightarrow> string" where
  "op_name k =
     (case k of
        NegateExpression \<Rightarrow> ''-''
      | AbsExpression \<Rightarrow> ''abs''
      | SgnExpression \<Rightarrow> ''sgn''
      | EqualExpression \<Rightarrow> ''=''
      | AddExpression \<Rightarrow> ''+''
      | SubtractExpression \<Rightarrow> ''-''
      | MultiplyExpression \<Rightarrow> ''*''
      | DivideExpression \<Rightarrow> ''/''
      | PowerExpression \<Rightarrow> ''^''
      | ConstantExpression \<Rightarrow> []
      | VariableExpression \<Rightarrow> [])"

text \<open>
  \<open>get_priority\<close>, lines 417-442, with \<open>OOO_INVALID = -1\<close>, \<open>OOO_ADDSUB = 0\<close>,
  \<open>OOO_MULTDIV = 1\<close> and \<open>OOO_EXPONENT = 2\<close>. It is a method of
  \<open>BinaryExpression\<close> and the source calls it on binary nodes only.
\<close>

definition get_priority :: "kind \<Rightarrow> int" where
  "get_priority k =
     (if k = PowerExpression then 2
      else if k = MultiplyExpression \<or> k = DivideExpression then 1
      else if k = AddExpression \<or> k = SubtractExpression then 0
      else - 1)"

text \<open>\<open>self_parens\<close>, \<open>left_parens\<close> and \<open>right_parens\<close>, lines 444-470.\<close>

definition self_parens :: "heap \<Rightarrow> addr \<Rightarrow> bool" where
  "self_parens h a =
     (let my_pri = get_priority (kind (cells h a)) in
      case parent (cells h a) of
        None \<Rightarrow> False
      | Some p \<Rightarrow> is_binary (kind (cells h p)) \<and> get_priority (kind (cells h p)) > my_pri)"

definition left_parens :: "heap \<Rightarrow> addr \<Rightarrow> bool" where
  "left_parens h a =
     (case left (cells h a) of
        None \<Rightarrow> False
      | Some l \<Rightarrow>
          is_binary (kind (cells h l)) \<and> \<not> self_parens h l \<and>
          get_priority (kind (cells h l)) < get_priority (kind (cells h a)))"

definition right_parens :: "heap \<Rightarrow> addr \<Rightarrow> bool" where
  "right_parens h a =
     (case right (cells h a) of
        None \<Rightarrow> False
      | Some r \<Rightarrow>
          is_binary (kind (cells h r)) \<and> \<not> self_parens h r \<and>
          get_priority (kind (cells h r)) \<le> get_priority (kind (cells h a)))"

definition children_message :: "kind \<Rightarrow> string" where
  "children_message k = class_name k @ '': left/right children must both be valid''"

definition parens_if :: "bool \<Rightarrow> string \<Rightarrow> string" where
  "parens_if b s = (if b then ''('' @ s @ '')'' else s)"

text \<open>
  \<open>__str__\<close>, by kind: \<open>ConstantExpression\<close> (line 700), \<open>VariableExpression\<close>
  (726), \<open>NegateExpression\<close> (360), \<open>FunctionExpression\<close> (387),
  \<open>MultiplyExpression\<close> (599), \<open>PowerExpression\<close> (676) and
  \<open>BinaryExpression\<close> (472) for the other binary kinds. Formatting \<open>None\<close>
  gives the text \<open>None\<close>.
\<close>

fun to_text :: "(pynum \<Rightarrow> string) \<Rightarrow> (string \<Rightarrow> string) \<Rightarrow> nat \<Rightarrow> heap \<Rightarrow> addr \<Rightarrow> error + string" where
  "to_text fmt colr 0 h a = Inl OutOfFuel"
| "to_text fmt colr (Suc f) h a =
     (let n = cells h a;
          sub = (\<lambda>x. case x of None \<Rightarrow> Inr ''None'' | Some c \<Rightarrow> to_text fmt colr f h c)
      in
      if kind n = ConstantExpression then
        Inr (with_color colr n (case const_value n of None \<Rightarrow> ''None'' | Some v \<Rightarrow> fmt v))
      else if kind n = VariableExpression then
        (case ident n of None \<Rightarrow> Inr [] | Some x \<Rightarrow> Inr (with_color colr n x))
      else if kind n = NegateExpression then
        (case sub (get_child n) of
           Inl e \<Rightarrow> Inl e
         | Inr c \<Rightarrow> Inr (with_color colr n (''-'' @ c)))
      else if is_unary (kind n) then
        (case get_child n of
           None \<Rightarrow> Inr (with_color colr n (op_name (kind n)))
         | Some c \<Rightarrow>
             (case to_text fmt colr f h c of
                Inl e \<Rightarrow> Inl e
              | Inr t \<Rightarrow> Inr (with_color colr n (op_name (kind n) @ ''('' @ t @ '')''))))
      else if kind n = MultiplyExpression \<and> isinstance h (left n) ConstantExpression \<and>
              (isinstance h (right n) VariableExpression \<or> isinstance h (right n) PowerExpression) then
        (case sub (left n) of
           Inl e \<Rightarrow> Inl e
         | Inr l \<Rightarrow>
             (case sub (right n) of
                Inl e \<Rightarrow> Inl e
              | Inr r \<Rightarrow> Inr (with_color colr n (l @ r))))
      else if kind n = PowerExpression then
        (case sub (left n) of
           Inl e \<Rightarrow> Inl e
         | Inr l \<Rightarrow>
             (case sub (right n) of
                Inl e \<Rightarrow> Inl e
              | Inr r \<Rightarrow> Inr (l @ with_color colr n (op_name (kind n)) @ r)))
      else if left n = None \<or> right n = None then Inl (ValueError (children_message (kind n)))
      else
        (case sub (left n) of
           Inl e \<Rightarrow> Inl e
         | Inr l \<Rightarrow>
             (case sub (right n) of
                Inl e \<Rightarrow> Inl e
              | Inr r \<Rightarrow>
                  Inr (parens_if (self_parens h a)
                         (parens_if (left_parens h a) l @ '' '' @
                          with_color colr n (op_name (kind n)) @ '' '' @
                          parens_if (right_parens h a) r)))))"

section \<open>Cloning\<close>

text \<open>\<open>path_to_root\<close>, lines 236-251: the class names from the node up to the root.\<close>

fun path_points :: "nat \<Rightarrow> heap \<Rightarrow> addr \<Rightarrow> error + string list" where
  "path_points 0 h a = Inl OutOfFuel"
| "path_points (Suc f) h a =
     (case parent (cells h a) of
        None \<Rightarrow> Inr [class_name (kind (cells h a))]
      | Some p \<Rightarrow>
          (case path_points f h p of
             Inl e \<Rightarrow> Inl e
           | Inr ps \<Rightarrow> Inr (class_name (kind (cells h a)) # ps)))"

fun join_dot :: "string list \<Rightarrow> string" where
  "join_dot [] = []"
| "join_dot [x] = x"
| "join_dot (x # y # ys) = x @ ''.'' @ join_dot (y # ys)"

definition path_to_root :: "nat \<Rightarrow> heap \<Rightarrow> addr \<Rightarrow> error + string" where
  "path_to_root fuel h a =
     (case path_points fuel h a of Inl e \<Rightarrow> Inl e | Inr ps \<Rightarrow> Inr (join_dot ps))"

text \<open>
  \<open>clone\<close> has three layers. The innermost is modelled from the spec:
  \<open>BinaryTreeNode.clone\<close> (\<open>core/tree.py\<close> is not among the sources). The spec,
  4.1: it "deep-copies the subtree rooted at the receiver, preserving node kind and per-kind
  payload, assigning each cloned node a new identifier, and relinking parent pointers
  within the clone only (the clone's root has no parent)". The new node (\<open>new_like\<close>) is
  a new object of the same class, with the attributes \<open>MathExpression.__init__\<close> sets
  and the side of a unary node's child; each child that is not \<open>None\<close> is cloned by
  its own \<open>clone\<close> and linked with the link setter (\<open>link_clone\<close>).
\<close>

definition new_like :: "heap \<Rightarrow> addr \<Rightarrow> heap \<times> addr" where
  "new_like h self =
     (let result = next_free h
      in (h\<lparr>cells := (cells h)(result :=
                 (blank (kind (cells h self)))\<lparr>operatorleft := operatorleft (cells h self)\<rparr>),
            next_free := Suc result\<rparr>, result))"

definition link_clone ::
  "(heap \<Rightarrow> addr \<Rightarrow> error + (heap \<times> addr)) \<Rightarrow> (addr \<Rightarrow> addr option \<Rightarrow> heap \<Rightarrow> heap) \<Rightarrow>
   addr \<Rightarrow> addr option \<Rightarrow> heap \<Rightarrow> error + heap" where
  "link_clone rec setter result c h =
     (case c of
        None \<Rightarrow> Inr h
      | Some x \<Rightarrow>
          (case rec h x of
             Inl e \<Rightarrow> Inl e
           | Inr (h1, x') \<Rightarrow> Inr (setter result (Some x') h1)))"

text \<open>
  From the source: \<open>MathExpression.clone\<close> (lines 276-285) records the clone in
  \<open>self.cloned_node\<close> when \<open>self.cloned_target\<close> is set and equals
  \<open>self.path_to_root()\<close> (\<open>track_clone\<close>, with \<open>lf\<close> the fuel of the
  \<open>path_to_root\<close> loop); \<open>ConstantExpression.clone\<close> (692) and
  \<open>VariableExpression.clone\<close> (721) copy \<open>value\<close> and \<open>identifier\<close>
  (\<open>copy_payload\<close>).
\<close>

definition track_clone :: "nat \<Rightarrow> addr \<Rightarrow> addr \<Rightarrow> heap \<Rightarrow> error + heap" where
  "track_clone lf self result h =
     (case cloned_target (cells h self) of
        None \<Rightarrow> Inr h
      | Some t \<Rightarrow>
          (case path_to_root lf h self of
             Inl e \<Rightarrow> Inl e
           | Inr p \<Rightarrow>
               Inr (if p = t then upd self (\<lambda>n. n\<lparr>cloned_node := Some result\<rparr>) h else h)))"

definition copy_payload :: "addr \<Rightarrow> addr \<Rightarrow> heap \<Rightarrow> heap" where
  "copy_payload self result h =
     (if kind (cells h self) = ConstantExpression then
        upd result (\<lambda>n. n\<lparr>const_value := const_value (cells h self)\<rparr>) h
      else if kind (cells h self) = VariableExpression then
        upd result (\<lambda>n. n\<lparr>ident := ident (cells h self)\<rparr>) h
      else h)"

fun clone :: "nat \<Rightarrow> nat \<Rightarrow> heap \<Rightarrow> addr \<Rightarrow> error + (heap \<times> addr)" where
  "clone lf 0 h self = Inl OutOfFuel"
| "clone lf (Suc f) h self =
     (case new_like h self of
        (h0, result) \<Rightarrow>
          bind_err (link_clone (\<lambda>h' c. clone lf f h' c) set_left result
                      (left (cells h0 self)) h0) (\<lambda>h2.
          bind_err (link_clone (\<lambda>h' c. clone lf f h' c) set_right result
                      (right (cells h2 self)) h2) (\<lambda>h4.
          bind_err (track_clone lf self result h4) (\<lambda>h5.
            Inr (copy_payload self result h5, result)))))"

definition not_cloned_message :: string where
  "not_cloned_message = ''cloning root hierarchy did not clone this node''"

text \<open>\<open>clone_from_root\<close>, lines 253-274.\<close>

definition clone_from_root :: "nat \<Rightarrow> heap \<Rightarrow> addr \<Rightarrow> addr option \<Rightarrow> error + (heap \<times> addr)" where
  "clone_from_root fuel h self node_arg =
     (let node = (case node_arg of None \<Rightarrow> self | Some x \<Rightarrow> x);
          h1 = upd self (\<lambda>n. n\<lparr>cloned_node := None\<rparr>) h
      in
      case path_to_root fuel h1 node of
        Inl e \<Rightarrow> Inl e
      | Inr target \<Rightarrow>
          (let h2 = upd self (\<lambda>n. n\<lparr>cloned_target := Some target\<rparr>) h1 in
           case get_root fuel h2 node of
             Inl e \<Rightarrow> Inl e
           | Inr r \<Rightarrow>
               (case clone fuel fuel h2 r of
                  Inl e \<Rightarrow> Inl e
                | Inr (h3, result) \<Rightarrow>
                    (case cloned_node (cells h3 self) of
                       None \<Rightarrow> Inl (Exception not_cloned_message)
                     | Some c \<Rightarrow>
                         Inr (upd self (\<lambda>n. n\<lparr>cloned_node := None, cloned_target := None\<rparr>) h3,
                              c)))))"

section \<open>Term analysis\<close>

text \<open>
  Modelled from the spec: \<open>visit_inorder\<close> (\<open>core/tree.py\<close> is not among the
  sources). The spec, 4.1: "inorder = left, self, right". The visitors of
  \<open>findByType\<close> (lines 177-190 of \<open>expressions.py\<close>) never stop the traversal, so
  it is a filter of the nodes in that order.
\<close>

fun inorder :: "nat \<Rightarrow> heap \<Rightarrow> addr \<Rightarrow> error + addr list" where
  "inorder 0 h a = Inl OutOfFuel"
| "inorder (Suc f) h a =
     (case (case left (cells h a) of None \<Rightarrow> Inr [] | Some l \<Rightarrow> inorder f h l) of
        Inl e \<Rightarrow> Inl e
      | Inr ls \<Rightarrow>
          (case (case right (cells h a) of None \<Rightarrow> Inr [] | Some r \<Rightarrow> inorder f h r) of
             Inl e \<Rightarrow> Inl e
           | Inr rs \<Rightarrow> Inr (ls @ [a] @ rs)))"

definition findByType :: "nat \<Rightarrow> heap \<Rightarrow> addr \<Rightarrow> kind \<Rightarrow> error + addr list" where
  "findByType fuel h a k =
     (case inorder fuel h a of
        Inl e \<Rightarrow> Inl e
      | Inr xs \<Rightarrow> Inr (filter (\<lambda>x. kind (cells h x) = k) xs))"

text \<open>\<open>is_add_or_sub\<close>, lines 133-134 of \<open>helpers.py\<close>.\<close>

definition is_add_or_sub :: "heap \<Rightarrow> addr option \<Rightarrow> bool" where
  "is_add_or_sub h x = (isinstance h x AddExpression \<or> isinstance h x SubtractExpression)"

text \<open>
  Modelled from the spec: \<open>is_leaf\<close> (\<open>core/tree.py\<close> is not among the sources), a
  node with no children.
\<close>

definition is_leaf :: "node \<Rightarrow> bool" where
  "is_leaf n = (left n = None \<and> right n = None)"

text \<open>
  \<open>TermResult\<close>, lines 353-360, without the \<open>node_*\<close> lists, which hold the nodes
  the three summaries were read from.
\<close>

record term_result =
  coefficients :: "pynum option list"
  variables :: "string option list"
  exponent :: "pynum option"

text \<open>
  \<open>list.sort\<close> on the identifiers: Python compares code points, and comparing
  \<open>None\<close> with anything raises \<open>TypeError\<close>. The order on characters is that
  of their codes.
\<close>

fun str_less :: "string \<Rightarrow> string \<Rightarrow> bool" where
  "str_less [] [] = False"
| "str_less [] (y # ys) = True"
| "str_less (x # xs) [] = False"
| "str_less (x # xs) (y # ys) =
     ((of_char x :: nat) < of_char y \<or> (x = y \<and> str_less xs ys))"

fun insert_sorted :: "string \<Rightarrow> string list \<Rightarrow> string list" where
  "insert_sorted x [] = [x]"
| "insert_sorted x (y # ys) = (if str_less y x then y # insert_sorted x ys else x # y # ys)"

definition sort_identifiers :: "string option list \<Rightarrow> error + string option list" where
  "sort_identifiers xs =
     (if length xs \<le> 1 then Inr xs
      else if None \<in> set xs then Inl TypeError
      else Inr (map Some (foldr insert_sorted (map the xs) [])))"

text \<open>The inner functions of \<open>get_term\<close>, lines 418-426 and 432-437.\<close>

definition filter_coefficients :: "heap \<Rightarrow> addr \<Rightarrow> addr \<Rightarrow> bool" where
  "filter_coefficients h node n =
     (if parent (cells h n) = None \<or> parent (cells h n) = parent (cells h node) then True
      else if (case parent (cells h n) of
                 None \<Rightarrow> False
               | Some p \<Rightarrow> is_binary (kind (cells h p)) \<and> kind (cells h p) \<noteq> MultiplyExpression)
           then False
      else True)"

definition resolve_coefficients :: "heap \<Rightarrow> addr \<Rightarrow> error + pynum option" where
  "resolve_coefficients h c =
     (if isinstance h (parent (cells h c)) NegateExpression then
        (case const_value (cells h c) of
           None \<Rightarrow> Inl TypeError
         | Some v \<Rightarrow> Inr (Some (py_mul v (PyNum (- 1)))))
      else Inr (const_value (cells h c)))"

fun collect :: "('a \<Rightarrow> error + 'b) \<Rightarrow> 'a list \<Rightarrow> error + 'b list" where
  "collect f [] = Inr []"
| "collect f (x # xs) =
     (case f x of
        Inl e \<Rightarrow> Inl e
      | Inr y \<Rightarrow> (case collect f xs of Inl e \<Rightarrow> Inl e | Inr ys \<Rightarrow> Inr (y # ys)))"

definition count_type :: "nat \<Rightarrow> heap \<Rightarrow> addr option \<Rightarrow> kind \<Rightarrow> error + nat" where
  "count_type fuel h x k =
     (case x of
        None \<Rightarrow> Inr 0
      | Some a \<Rightarrow> (case findByType fuel h a k of Inl e \<Rightarrow> Inl e | Inr xs \<Rightarrow> Inr (length xs)))"

text \<open>
  \<open>get_term\<close>, lines 365-459. The result \<open>None\<close> is the \<open>False\<close> the source
  returns for a node that is no term.
\<close>

definition get_term_exponent :: "nat \<Rightarrow> heap \<Rightarrow> addr \<Rightarrow> error + (pynum option) option" where
  "get_term_exponent fuel h node =
     bind_err (findByType fuel h node PowerExpression) (\<lambda>exponents.
       if length exponents > 0 then
         (if length exponents \<noteq> 1 then Inr None
          else if \<not> isinstance h (right (cells h (hd exponents))) ConstantExpression then Inr None
          else Inr (Some (const_value (cells h (the (right (cells h (hd exponents))))))))
       else Inr (Some None))"

definition get_term_rest :: "nat \<Rightarrow> heap \<Rightarrow> addr \<Rightarrow> pynum option \<Rightarrow> error + term_result option" where
  "get_term_rest fuel h node ex =
     bind_err (findByType fuel h node VariableExpression) (\<lambda>vars.
     bind_err (if length vars > 0 then sort_identifiers (map (\<lambda>v. ident (cells h v)) vars)
               else Inr []) (\<lambda>vs.
     bind_err (findByType fuel h node ConstantExpression) (\<lambda>consts.
     bind_err (collect (resolve_coefficients h) (filter (filter_coefficients h node) consts)) (\<lambda>cs.
       if length vs = 0 \<and> length cs = 0 \<and> ex = None then Inr None
       else Inr (Some \<lparr>coefficients = cs, variables = vs, exponent = ex\<rparr>)))))"

definition get_term :: "nat \<Rightarrow> heap \<Rightarrow> addr \<Rightarrow> error + term_result option" where
  "get_term fuel h node =
     (let n = cells h node in
      if kind n = ConstantExpression \<and> (parent n = None \<or> is_add_or_sub h (parent n)) then
        Inr (Some \<lparr>coefficients = [const_value n], variables = [], exponent = None\<rparr>)
      else if kind n = VariableExpression \<and> (parent n = None \<or> is_add_or_sub h (parent n)) then
        Inr (Some \<lparr>coefficients = [], variables = [ident n], exponent = None\<rparr>)
      else
        bind_err (if \<not> is_add_or_sub h (Some node) then
                    bind_err (count_type fuel h (Some node) AddExpression) (\<lambda>adds.
                      if adds > 0 then Inr True
                      else bind_err (count_type fuel h (Some node) SubtractExpression) (\<lambda>subs.
                             Inr (subs > 0)))
                  else Inr False) (\<lambda>has_add_sub.
        if has_add_sub then Inr None
        else
        bind_err (if left n \<noteq> None then count_type fuel h (left n) AddExpression else Inr 0) (\<lambda>left_adds.
        if left_adds > 0 \<and> (case right n of None \<Rightarrow> False | Some r \<Rightarrow> \<not> is_leaf (cells h r))
        then Inr None
        else
        bind_err (if right n \<noteq> None then count_type fuel h (right n) AddExpression else Inr 0) (\<lambda>right_adds.
        if right_adds > 0 then Inr None
        else
        bind_err (get_term_exponent fuel h node) (\<lambda>ex.
          case ex of
            None \<Rightarrow> Inr None
          | Some e \<Rightarrow> get_term_rest fuel h node e)))))"

text \<open>
  \<open>==\<close> on two exponents: \<open>None\<close> equals \<open>None\<close> only, and \<open>nan\<close> equals
  nothing.
\<close>

fun py_eq :: "pynum option \<Rightarrow> pynum option \<Rightarrow> bool" where
  "py_eq None None = True"
| "py_eq (Some (PyNum a)) (Some (PyNum b)) = (a = b)"
| "py_eq _ _ = False"

text \<open>
  \<open>terms_are_like\<close>, lines 598-632. An argument is \<open>False\<close>, a term summary or an
  expression; reading \<open>variables\<close> of the \<open>False\<close> that \<open>get_term\<close> returned
  raises \<open>AttributeError\<close>.
\<close>

datatype term_arg = ArgFalse | ArgTerm term_result | ArgExpr addr

definition like_summaries :: "term_result \<Rightarrow> term_result \<Rightarrow> bool" where
  "like_summaries one two =
     (if length (variables one) = 0 \<and> length (variables two) = 0 then True
      else if length (variables one) \<noteq> length (variables two) then False
      else if length (filter (\<lambda>v. v \<notin> set (variables two)) (variables one)) > 0 then False
      else if \<not> py_eq (exponent one) (exponent two) then False
      else True)"

definition extract_term :: "nat \<Rightarrow> heap \<Rightarrow> term_arg \<Rightarrow> error + term_result option" where
  "extract_term fuel h x =
     (case x of
        ArgFalse \<Rightarrow> Inr None
      | ArgTerm t \<Rightarrow> Inr (Some t)
      | ArgExpr a \<Rightarrow> get_term fuel h a)"

definition terms_are_like :: "nat \<Rightarrow> heap \<Rightarrow> term_arg \<Rightarrow> term_arg \<Rightarrow> error + bool" where
  "terms_are_like fuel h one two =
     (if one = ArgFalse \<or> two = ArgFalse then Inr False
      else
        bind_err (extract_term fuel h one) (\<lambda>t1.
        bind_err (extract_term fuel h two) (\<lambda>t2.
          case t1 of
            None \<Rightarrow> Inl AttributeError
          | Some s1 \<Rightarrow>
              (case t2 of
                 None \<Rightarrow> Inl AttributeError
               | Some s2 \<Rightarrow> Inr (like_summaries s1 s2)))))"

section \<open>Words of the specification\<close>

text \<open>
  The canonical order of the spec, 4.4: "\<open>Constant * Variable\<close>, or
  \<open>Constant * (Variable ^ Constant)\<close>".
\<close>

definition variable_power_constant :: "heap \<Rightarrow> addr option \<Rightarrow> bool" where
  "variable_power_constant h x =
     (isinstance h x PowerExpression \<and>
      isinstance h (left (cells h (the x))) VariableExpression \<and>
      isinstance h (right (cells h (the x))) ConstantExpression)"

definition canonical_order :: "heap \<Rightarrow> addr \<Rightarrow> bool" where
  "canonical_order h a =
     (isinstance h (left (cells h a)) ConstantExpression \<and>
      (isinstance h (right (cells h a)) VariableExpression \<or>
       variable_power_constant h (right (cells h a))))"

text \<open>The letters that have a slot of their own in \<open>MathTypeKeys\<close>.\<close>

definition lowercase :: string where
  "lowercase = ''abcdefghijklmnopqrstuvwxyz''"

definition uppercase :: string where
  "uppercase = ''ABCDEFGHIJKLMNOPQRSTUVWXYZ''"

text \<open>
  The invariant of the spec, 3, at one node: "if \<open>parent.left == n\<close> or
  \<open>parent.right == n\<close> then \<open>n.parent == parent\<close>".
\<close>

definition children_linked :: "heap \<Rightarrow> addr \<Rightarrow> bool" where
  "children_linked h a =
     ((case left (cells h a) of None \<Rightarrow> True | Some c \<Rightarrow> parent (cells h c) = Some a) \<and>
      (case right (cells h a) of None \<Rightarrow> True | Some c \<Rightarrow> parent (cells h c) = Some a))"

text \<open>
  The three conditions of the spec, 4.2, for parentheses around a binary node and around
  its children: the node wraps itself when its parent is a binary node of strictly higher
  priority; a left child is wrapped when it is a binary node of strictly lower priority
  than its parent, a right child when it is one of lower or equal priority, unless the
  child wraps itself. A multiply node is compact when its left child is a constant and its
  right child a variable or a power.
\<close>

definition wraps_itself :: "heap \<Rightarrow> addr \<Rightarrow> bool" where
  "wraps_itself h a =
     (case parent (cells h a) of
        None \<Rightarrow> False
      | Some p \<Rightarrow>
          is_binary (kind (cells h p)) \<and>
          get_priority (kind (cells h a)) < get_priority (kind (cells h p)))"

definition wraps_left :: "heap \<Rightarrow> addr \<Rightarrow> addr \<Rightarrow> bool" where
  "wraps_left h a l =
     (is_binary (kind (cells h l)) \<and>
      get_priority (kind (cells h l)) < get_priority (kind (cells h a)) \<and>
      \<not> wraps_itself h l)"

definition wraps_right :: "heap \<Rightarrow> addr \<Rightarrow> addr \<Rightarrow> bool" where
  "wraps_right h a r =
     (is_binary (kind (cells h r)) \<and>
      get_priority (kind (cells h r)) \<le> get_priority (kind (cells h a)) \<and>
      \<not> wraps_itself h r)"

definition compact_multiply :: "heap \<Rightarrow> addr \<Rightarrow> bool" where
  "compact_multiply h a =
     (kind (cells h a) = MultiplyExpression \<and>
      isinstance h (left (cells h a)) ConstantExpression \<and>
      (isinstance h (right (cells h a)) VariableExpression \<or>
       isinstance h (right (cells h a)) PowerExpression))"

subsection \<open>Trees and their clones\<close>

text \<open>
  A tree, as the spec has it (3): every child names the node above it as its parent, and
  the root has no parent. \<open>wf_tree d h p a\<close>: the nodes below \<open>a\<close> are allocated
  and so linked, \<open>p\<close> is the parent of \<open>a\<close>, and no path below \<open>a\<close> is longer
  than \<open>d\<close> nodes. \<open>in_tree d h a n\<close>: the node \<open>n\<close> is \<open>a\<close> or lies below it.
\<close>

fun wf_tree :: "nat \<Rightarrow> heap \<Rightarrow> addr option \<Rightarrow> addr \<Rightarrow> bool" where
  "wf_tree 0 h p a = False"
| "wf_tree (Suc d) h p a =
     (a < next_free h \<and> parent (cells h a) = p \<and>
      (case left (cells h a) of None \<Rightarrow> True | Some l \<Rightarrow> wf_tree d h (Some a) l) \<and>
      (case right (cells h a) of None \<Rightarrow> True | Some r \<Rightarrow> wf_tree d h (Some a) r))"

fun in_tree :: "nat \<Rightarrow> heap \<Rightarrow> addr \<Rightarrow> addr \<Rightarrow> bool" where
  "in_tree 0 h a n = False"
| "in_tree (Suc d) h a n =
     (a = n \<or>
      (case left (cells h a) of None \<Rightarrow> False | Some l \<Rightarrow> in_tree d h l n) \<or>
      (case right (cells h a) of None \<Rightarrow> False | Some r \<Rightarrow> in_tree d h r n))"

text \<open>
  No node of the tree at \<open>a\<close> is being rendered as a change: \<open>_rendering_change\<close> is
  \<open>True\<close> only while the property \<open>colored\<close> (lines 78-85) renders the tree.
\<close>

fun plain :: "nat \<Rightarrow> heap \<Rightarrow> addr \<Rightarrow> bool" where
  "plain 0 h a = True"
| "plain (Suc d) h a =
     (rendering_change (cells h a) \<noteq> Some True \<and>
      (case left (cells h a) of None \<Rightarrow> True | Some l \<Rightarrow> plain d h l) \<and>
      (case right (cells h a) of None \<Rightarrow> True | Some r \<Rightarrow> plain d h r))"

text \<open>
  A full clone. \<open>alike n n'\<close>: the node \<open>n'\<close> is a new node of the kind of \<open>n\<close>
  with the payload of \<open>n\<close>. \<open>mirrors d H h e a a'\<close>: the tree at \<open>a'\<close> in the heap
  \<open>h\<close> is a copy, node by node, of the tree at \<open>a\<close> in the heap \<open>H\<close>; its nodes
  are new ones, below the address \<open>e\<close>, and each child in it names its own parent in the
  copy. \<open>finds d H h a a' n c\<close>: the node \<open>c\<close> has in the copy the place that
  \<open>n\<close> has in the original.
\<close>

definition alike :: "node \<Rightarrow> node \<Rightarrow> bool" where
  "alike n n' =
     (kind n' = kind n \<and> operatorleft n' = operatorleft n \<and>
      (if kind n = ConstantExpression then const_value n' = const_value n else True) \<and>
      (if kind n = VariableExpression then ident n' = ident n else True) \<and>
      rendering_change n' = None \<and> changed n' = False)"

fun mirrors :: "nat \<Rightarrow> heap \<Rightarrow> heap \<Rightarrow> addr \<Rightarrow> addr \<Rightarrow> addr \<Rightarrow> bool" where
  "mirrors 0 H h e a a' = False"
| "mirrors (Suc d) H h e a a' =
     (a' < e \<and> alike (cells H a) (cells h a') \<and>
      (case left (cells H a) of
         None \<Rightarrow> left (cells h a') = None
       | Some l \<Rightarrow>
           (case left (cells h a') of
              None \<Rightarrow> False
            | Some l' \<Rightarrow> a' < l' \<and> parent (cells h l') = Some a' \<and> mirrors d H h e l l')) \<and>
      (case right (cells H a) of
         None \<Rightarrow> right (cells h a') = None
       | Some r \<Rightarrow>
           (case right (cells h a') of
              None \<Rightarrow> False
            | Some r' \<Rightarrow> a' < r' \<and> parent (cells h r') = Some a' \<and> mirrors d H h e r r')))"

fun finds :: "nat \<Rightarrow> heap \<Rightarrow> heap \<Rightarrow> addr \<Rightarrow> addr \<Rightarrow> addr \<Rightarrow> addr \<Rightarrow> bool" where
  "finds 0 H h a a' n c = False"
| "finds (Suc d) H h a a' n c =
     ((a = n \<and> a' = c) \<or>
      (case left (cells H a) of
         None \<Rightarrow> False
       | Some l \<Rightarrow> (case left (cells h a') of None \<Rightarrow> False | Some l' \<Rightarrow> finds d H h l l' n c)) \<or>
      (case right (cells H a) of
         None \<Rightarrow> False
       | Some r \<Rightarrow> (case right (cells h a') of None \<Rightarrow> False | Some r' \<Rightarrow> finds d H h r r' n c)))"

section \<open>Auxiliary definitions\<close>

text \<open>
  The three statements of \<open>apply_to\<close> that change the heap (lines 68-73), and what
  they do to the node itself.
\<close>

definition swapped :: "heap \<Rightarrow> addr \<Rightarrow> heap" where
  "swapped h node =
     set_changed node (set_left node (right (cells h node)) (set_right node (left (cells h node)) h))"

definition swap_links :: "node \<Rightarrow> node" where
  "swap_links x = x\<lparr>left := right x, right := left x, changed := True\<rparr>"

text \<open>
  Two heaps render alike along a relation \<open>R\<close> of their addresses: related nodes
  agree in what \<open>to_text\<close> reads of them, their children are related, and their
  parents are of the same kind.
\<close>

definition render_sim :: "(addr \<Rightarrow> addr \<Rightarrow> bool) \<Rightarrow> (string \<Rightarrow> string) \<Rightarrow> heap \<Rightarrow> heap \<Rightarrow> bool" where
  "render_sim R colr h h' =
     (\<forall>a a'. R a a' \<longrightarrow>
        kind (cells h' a') = kind (cells h a) \<and>
        (kind (cells h a) = ConstantExpression \<longrightarrow>
           const_value (cells h' a') = const_value (cells h a)) \<and>
        (kind (cells h a) = VariableExpression \<longrightarrow>
           ident (cells h' a') = ident (cells h a)) \<and>
        operatorleft (cells h' a') = operatorleft (cells h a) \<and>
        (\<forall>t. with_color colr (cells h' a') t = with_color colr (cells h a) t) \<and>
        rel_option R (left (cells h a)) (left (cells h' a')) \<and>
        rel_option R (right (cells h a)) (right (cells h' a')) \<and>
        map_option (\<lambda>p. kind (cells h' p)) (parent (cells h' a')) =
          map_option (\<lambda>p. kind (cells h p)) (parent (cells h a)))"

text \<open>
  Sample instances of the external functions, for the closed statements: powers with a
  natural exponent, the rendering of the one-digit numbers, and a marker for coloured text.
\<close>

definition sample_power :: power_fn where
  "sample_power one two =
     (case one of
        Some (PyNum x) \<Rightarrow>
          (case two of
             Some (PyNum y) \<Rightarrow>
               if 0 \<le> y \<and> y = of_int \<lfloor>y\<rfloor> then Inr (Some (PyNum (x ^ nat \<lfloor>y\<rfloor>)))
               else Inr (Some PyNaN)
           | Some PyNaN \<Rightarrow> Inr (Some PyNaN)
           | None \<Rightarrow> Inl TypeError)
      | Some PyNaN \<Rightarrow> (case two of None \<Rightarrow> Inl TypeError | Some y \<Rightarrow> Inr (Some PyNaN))
      | None \<Rightarrow> Inl TypeError)"

definition sample_fmt :: "pynum \<Rightarrow> string" where
  "sample_fmt v =
     (case v of
        PyNaN \<Rightarrow> ''nan''
      | PyNum r \<Rightarrow>
          if 0 \<le> r \<and> r < 10 \<and> r = of_int \<lfloor>r\<rfloor> then str_digit (nat \<lfloor>r\<rfloor>) else ''#'')"

definition sample_colr :: "string \<Rightarrow> string" where
  "sample_colr t = ''<'' @ t @ ''>''"

text \<open>
  A sample rounding, to the nearest multiple of \<open>1/1024\<close>: as the rounding of a float
  format does, it leaves the whole numbers as they are.
\<close>

definition sample_round :: "real \<Rightarrow> real" where
  "sample_round r = of_int \<lfloor>r * 1024 + 1 / 2\<rfloor> / 1024"

text \<open>
  The invariants of \<open>clone\<close>. \<open>same_old H h\<close>: the heap \<open>h\<close> has the nodes of
  \<open>H\<close> as they were, up to \<open>cloned_node\<close>. \<open>same_shape h h'\<close>: the two heaps
  differ in \<open>cloned_node\<close> and \<open>cloned_target\<close> only. \<open>frame_from c e h h'\<close>:
  from \<open>h\<close> to \<open>h'\<close> the nodes between \<open>c\<close> and \<open>e\<close> are unchanged, and
  \<open>c\<close> up to its parent. \<open>clone_post\<close> is what \<open>clone\<close> of the node \<open>a\<close>
  has done when it returns \<open>a'\<close>, with \<open>n\<close> the tracked node, and \<open>link_post\<close>
  what \<open>link_clone\<close> has done to the new node \<open>result\<close>.
\<close>

definition same_old :: "heap \<Rightarrow> heap \<Rightarrow> bool" where
  "same_old H h =
     (next_free H \<le> next_free h \<and>
      (\<forall>m < next_free H. cells h m = (cells H m)\<lparr>cloned_node := cloned_node (cells h m)\<rparr>))"

definition same_shape :: "heap \<Rightarrow> heap \<Rightarrow> bool" where
  "same_shape h h' =
     (next_free h' = next_free h \<and>
      (\<forall>x. cells h' x = (cells h x)\<lparr>cloned_node := cloned_node (cells h' x),
                                   cloned_target := cloned_target (cells h' x)\<rparr>))"

definition frame_from :: "addr \<Rightarrow> addr \<Rightarrow> heap \<Rightarrow> heap \<Rightarrow> bool" where
  "frame_from c e h h' =
     ((\<forall>x. c < x \<and> x < e \<longrightarrow> cells h' x = cells h x) \<and>
      cells h' c = (cells h c)\<lparr>parent := parent (cells h' c)\<rparr>)"

definition parent_kind :: "heap \<Rightarrow> addr \<Rightarrow> kind option" where
  "parent_kind h a = map_option (\<lambda>p. kind (cells h p)) (parent (cells h a))"

definition clone_post :: "nat \<Rightarrow> heap \<Rightarrow> addr \<Rightarrow> heap \<Rightarrow> addr \<Rightarrow> heap \<Rightarrow> addr \<Rightarrow> bool" where
  "clone_post d H n h a h' a' =
     (a' = next_free h \<and> next_free h < next_free h' \<and> same_old H h' \<and>
      (\<forall>x. next_free H \<le> x \<and> x < next_free h \<longrightarrow> cells h' x = cells h x) \<and>
      parent (cells h' a') = None \<and>
      mirrors d H h' (next_free h') a a' \<and>
      (if in_tree d H a n
       then (\<exists>c. cloned_node (cells h' n) = Some c \<and> finds d H h' a a' n c)
       else cloned_node (cells h' n) = cloned_node (cells h n)))"

definition link_post ::
  "(node \<Rightarrow> addr option) \<Rightarrow> (addr option \<Rightarrow> node \<Rightarrow> node) \<Rightarrow> nat \<Rightarrow> heap \<Rightarrow> addr \<Rightarrow> addr \<Rightarrow>
   heap \<Rightarrow> addr \<Rightarrow> heap \<Rightarrow> bool" where
  "link_post sel put d H n a h0 result h2 =
     (same_old H h2 \<and> next_free h0 \<le> next_free h2 \<and>
      (\<forall>x. next_free H \<le> x \<and> x < next_free h0 \<and> x \<noteq> result \<longrightarrow> cells h2 x = cells h0 x) \<and>
      cells h2 result = put (sel (cells h2 result)) (cells h0 result) \<and>
      (case sel (cells H a) of
         None \<Rightarrow> h2 = h0
       | Some l \<Rightarrow>
           (\<exists>l'. sel (cells h2 result) = Some l' \<and> l' = next_free h0 \<and>
              parent (cells h2 l') = Some result \<and>
              mirrors d H h2 (next_free h2) l l' \<and>
              (if in_tree d H l n
               then (\<exists>c. cloned_node (cells h2 n) = Some c \<and> finds d H h2 l l' n c)
               else cloned_node (cells h2 n) = cloned_node (cells h0 n)))))"

section \<open>Example trees\<close>

text \<open>\<open>4x\<close>: the constant at address 0, the variable at 1, the multiply node at 2.\<close>

definition heap_4x :: heap where
  "heap_4x =
     (case ConstantExpression_init (Some (PyNum 4)) empty_heap of (h1, c) \<Rightarrow>
      case VariableExpression_init (Some ''x'') h1 of (h2, v) \<Rightarrow>
      fst (BinaryExpression_init MultiplyExpression (Some c) (Some v) h2))"

text \<open>\<open>x * 4\<close>: the variable at 0, the constant at 1, the multiply node at 2.\<close>

definition heap_x4 :: heap where
  "heap_x4 =
     (case VariableExpression_init (Some ''x'') empty_heap of (h1, v) \<Rightarrow>
      case ConstantExpression_init (Some (PyNum 4)) h1 of (h2, c) \<Rightarrow>
      fst (BinaryExpression_init MultiplyExpression (Some v) (Some c) h2))"

text \<open>\<open>a + b\<close>: \<open>a\<close> at 0, \<open>b\<close> at 1, the add node at 2.\<close>

definition heap_ab :: heap where
  "heap_ab =
     (case VariableExpression_init (Some ''a'') empty_heap of (h1, a) \<Rightarrow>
      case VariableExpression_init (Some ''b'') h1 of (h2, b) \<Rightarrow>
      fst (BinaryExpression_init AddExpression (Some a) (Some b) h2))"

text \<open>\<open>x - x\<close>: the two variables at 0 and 1, the subtract node at 2.\<close>

definition heap_x_minus_x :: heap where
  "heap_x_minus_x =
     (case VariableExpression_init (Some ''x'') empty_heap of (h1, a) \<Rightarrow>
      case VariableExpression_init (Some ''x'') h1 of (h2, b) \<Rightarrow>
      fst (BinaryExpression_init SubtractExpression (Some a) (Some b) h2))"

text \<open>\<open>x\<close> alone, and the constant \<open>3\<close> alone, at address 0.\<close>

definition heap_x :: heap where
  "heap_x = fst (VariableExpression_init (Some ''x'') empty_heap)"

definition heap_3 :: heap where
  "heap_3 = fst (ConstantExpression_init (Some (PyNum 3)) empty_heap)"

text \<open>
  \<open>2 * (a + b)\<close>: \<open>a\<close> at 0, \<open>b\<close> at 1, the add node at 2, the constant at 3,
  the multiply node at 4.
\<close>

definition heap_2ab :: heap where
  "heap_2ab =
     (case VariableExpression_init (Some ''a'') empty_heap of (h1, a) \<Rightarrow>
      case VariableExpression_init (Some ''b'') h1 of (h2, b) \<Rightarrow>
      case BinaryExpression_init AddExpression (Some a) (Some b) h2 of (h3, s) \<Rightarrow>
      case ConstantExpression_init (Some (PyNum 2)) h3 of (h4, c) \<Rightarrow>
      fst (BinaryExpression_init MultiplyExpression (Some c) (Some s) h4))"

text \<open>
  Four terms side by side: \<open>5\<close> at 0; \<open>2^3\<close> with its power node at 3 (2 at 1
  and 3 at 2); \<open>x * x\<close> with its multiply node at 6 (the variables at 4 and 5); and
  \<open>x * y\<close> with its multiply node at 9 (the variables at 7 and 8).
\<close>

definition heap_terms :: heap where
  "heap_terms =
     (case ConstantExpression_init (Some (PyNum 5)) empty_heap of (h1, five) \<Rightarrow>
      case ConstantExpression_init (Some (PyNum 2)) h1 of (h2, two) \<Rightarrow>
      case ConstantExpression_init (Some (PyNum 3)) h2 of (h3, three) \<Rightarrow>
      case BinaryExpression_init PowerExpression (Some two) (Some three) h3 of (h4, p) \<Rightarrow>
      case VariableExpression_init (Some ''x'') h4 of (h5, x1) \<Rightarrow>
      case VariableExpression_init (Some ''x'') h5 of (h6, x2) \<Rightarrow>
      case BinaryExpression_init MultiplyExpression (Some x1) (Some x2) h6 of (h7, xx) \<Rightarrow>
      case VariableExpression_init (Some ''x'') h7 of (h8, x3) \<Rightarrow>
      case VariableExpression_init (Some ''y'') h8 of (h9, y) \<Rightarrow>
      fst (BinaryExpression_init MultiplyExpression (Some x3) (Some y) h9))"

text \<open>
  \<open>2^(3^4)\<close>: the constants 2, 3 and 4 at 0, 1 and 2, the inner power node at 3, the
  outer one at 4.
\<close>

definition heap_pow :: heap where
  "heap_pow =
     (case ConstantExpression_init (Some (PyNum 2)) empty_heap of (h1, two) \<Rightarrow>
      case ConstantExpression_init (Some (PyNum 3)) h1 of (h2, three) \<Rightarrow>
      case ConstantExpression_init (Some (PyNum 4)) h2 of (h3, four) \<Rightarrow>
      case BinaryExpression_init PowerExpression (Some three) (Some four) h3 of (h4, p) \<Rightarrow>
      fst (BinaryExpression_init PowerExpression (Some two) (Some p) h4))"

section \<open>Properties\<close>

lemmas init_defs = ConstantExpression_init_def VariableExpression_init_def
  BinaryExpression_init_def UnaryExpression_init_def MathExpression_init_def
  set_left_def set_right_def set_child_def upd_def empty_heap_def blank_def

lemma heap_x_cell: "cells heap_x 0 = (blank VariableExpression)\<lparr>ident := Some ''x''\<rparr>"
  by (simp add: heap_x_def init_defs)

lemma heap_3_cell:
  "cells heap_3 0 = (blank ConstantExpression)\<lparr>const_value := Some (PyNum 3)\<rparr>"
  by (simp add: heap_3_def init_defs)

lemma heap_4x_cells:
  "cells heap_4x 0 = (blank ConstantExpression)\<lparr>const_value := Some (PyNum 4), parent := Some 2\<rparr>"
  "cells heap_4x (Suc 0) = (blank VariableExpression)\<lparr>ident := Some ''x'', parent := Some 2\<rparr>"
  "cells heap_4x 2 = (blank MultiplyExpression)\<lparr>left := Some 0, right := Some 1\<rparr>"
  "next_free heap_4x = 3"
  by (simp_all add: heap_4x_def init_defs)

lemma heap_x4_cells:
  "cells heap_x4 0 = (blank VariableExpression)\<lparr>ident := Some ''x'', parent := Some 2\<rparr>"
  "cells heap_x4 (Suc 0) = (blank ConstantExpression)\<lparr>const_value := Some (PyNum 4), parent := Some 2\<rparr>"
  "cells heap_x4 2 = (blank MultiplyExpression)\<lparr>left := Some 0, right := Some 1\<rparr>"
  "next_free heap_x4 = 3"
  by (simp_all add: heap_x4_def init_defs)

lemma heap_ab_cells:
  "cells heap_ab 0 = (blank VariableExpression)\<lparr>ident := Some ''a'', parent := Some 2\<rparr>"
  "cells heap_ab (Suc 0) = (blank VariableExpression)\<lparr>ident := Some ''b'', parent := Some 2\<rparr>"
  "cells heap_ab 2 = (blank AddExpression)\<lparr>left := Some 0, right := Some 1\<rparr>"
  "next_free heap_ab = 3"
  by (simp_all add: heap_ab_def init_defs)

lemma heap_x_minus_x_cells:
  "cells heap_x_minus_x 0 = (blank VariableExpression)\<lparr>ident := Some ''x'', parent := Some 2\<rparr>"
  "cells heap_x_minus_x (Suc 0) = (blank VariableExpression)\<lparr>ident := Some ''x'', parent := Some 2\<rparr>"
  "cells heap_x_minus_x 2 = (blank SubtractExpression)\<lparr>left := Some 0, right := Some 1\<rparr>"
  "next_free heap_x_minus_x = 3"
  by (simp_all add: heap_x_minus_x_def init_defs)

lemma heap_2ab_cells:
  "cells heap_2ab 0 = (blank VariableExpression)\<lparr>ident := Some ''a'', parent := Some 2\<rparr>"
  "cells heap_2ab (Suc 0) = (blank VariableExpression)\<lparr>ident := Some ''b'', parent := Some 2\<rparr>"
  "cells heap_2ab 2 = (blank AddExpression)\<lparr>left := Some 0, right := Some 1, parent := Some 4\<rparr>"
  "cells heap_2ab 3 = (blank ConstantExpression)\<lparr>const_value := Some (PyNum 2), parent := Some 4\<rparr>"
  "cells heap_2ab 4 = (blank MultiplyExpression)\<lparr>left := Some 3, right := Some 2\<rparr>"
  "next_free heap_2ab = 5"
  by (simp_all add: heap_2ab_def init_defs)

lemma heap_terms_cells:
  "cells heap_terms 0 = (blank ConstantExpression)\<lparr>const_value := Some (PyNum 5)\<rparr>"
  "cells heap_terms (Suc 0) = (blank ConstantExpression)\<lparr>const_value := Some (PyNum 2), parent := Some 3\<rparr>"
  "cells heap_terms 2 = (blank ConstantExpression)\<lparr>const_value := Some (PyNum 3), parent := Some 3\<rparr>"
  "cells heap_terms 3 = (blank PowerExpression)\<lparr>left := Some 1, right := Some 2\<rparr>"
  "cells heap_terms 4 = (blank VariableExpression)\<lparr>ident := Some ''x'', parent := Some 6\<rparr>"
  "cells heap_terms 5 = (blank VariableExpression)\<lparr>ident := Some ''x'', parent := Some 6\<rparr>"
  "cells heap_terms 6 = (blank MultiplyExpression)\<lparr>left := Some 4, right := Some 5\<rparr>"
  "cells heap_terms 7 = (blank VariableExpression)\<lparr>ident := Some ''x'', parent := Some 9\<rparr>"
  "cells heap_terms 8 = (blank VariableExpression)\<lparr>ident := Some ''y'', parent := Some 9\<rparr>"
  "cells heap_terms 9 = (blank MultiplyExpression)\<lparr>left := Some 7, right := Some 8\<rparr>"
  by (simp_all add: heap_terms_def init_defs)

lemma heap_pow_cells:
  "cells heap_pow 0 = (blank ConstantExpression)\<lparr>const_value := Some (PyNum 2), parent := Some 4\<rparr>"
  "cells heap_pow (Suc 0) = (blank ConstantExpression)\<lparr>const_value := Some (PyNum 3), parent := Some 3\<rparr>"
  "cells heap_pow 2 = (blank ConstantExpression)\<lparr>const_value := Some (PyNum 4), parent := Some 3\<rparr>"
  "cells heap_pow 3 = (blank PowerExpression)\<lparr>left := Some 1, right := Some 2, parent := Some 4\<rparr>"
  "cells heap_pow 4 = (blank PowerExpression)\<lparr>left := Some 0, right := Some 3\<rparr>"
  by (simp_all add: heap_pow_def init_defs)

text \<open>The recursive equations, for a fuel that is written as a numeral.\<close>

lemmas fuel_numeral =
  evaluate.simps(2) [of _ "pred_numeral k", folded numeral_eq_Suc]
  differentiate.simps(2) [of "pred_numeral k", folded numeral_eq_Suc]
  get_root.simps(2) [of "pred_numeral k", folded numeral_eq_Suc]
  to_text.simps(2) [of _ _ "pred_numeral k", folded numeral_eq_Suc]
  inorder.simps(2) [of "pred_numeral k", folded numeral_eq_Suc]
  path_points.simps(2) [of "pred_numeral k", folded numeral_eq_Suc]
  clone.simps(2) [of _ "pred_numeral k", folded numeral_eq_Suc]
  for k

subsection \<open>The applicability of the commutative swap\<close>

text \<open>
  C3, as the code has it. \<open>can_apply_to\<close> is true of every add node and false of
  every node that is neither an add nor a multiply node. Of a multiply node it is true
  when \<open>preferred\<close> is true; when \<open>preferred\<close> is false it is false of a node in
  canonical order (\<open>Constant * Variable\<close>, or \<open>Constant * (Variable ^ Constant)\<close>),
  and true of a node that is not \<open>Constant * Variable\<close> and whose right child is not
  \<open>Variable ^ Constant\<close>.
\<close>

theorem C3_can_apply_to:
  "(kind (cells h a) = AddExpression \<longrightarrow> can_apply_to p h a) \<and>
   (kind (cells h a) \<noteq> AddExpression \<and> kind (cells h a) \<noteq> MultiplyExpression \<longrightarrow>
      \<not> can_apply_to p h a) \<and>
   (kind (cells h a) = MultiplyExpression \<and> p \<longrightarrow> can_apply_to p h a) \<and>
   (kind (cells h a) = MultiplyExpression \<and> \<not> p \<and> canonical_order h a \<longrightarrow>
      \<not> can_apply_to p h a) \<and>
   (kind (cells h a) = MultiplyExpression \<and> \<not> p \<and>
      \<not> (isinstance h (left (cells h a)) ConstantExpression \<and>
         isinstance h (right (cells h a)) VariableExpression) \<and>
      \<not> variable_power_constant h (right (cells h a)) \<longrightarrow> can_apply_to p h a)"
  by (auto simp: can_apply_to_def canonical_order_def variable_power_constant_def Let_def
      isinstance_def split: option.splits)

text \<open>
  The witness: the add node of \<open>a + b\<close>, the constant of \<open>4x\<close>, and the multiply
  nodes of \<open>4x\<close> (canonical) and of \<open>x * 4\<close> (not canonical), with
  \<open>preferred\<close> true and false. With \<open>preferred = False\<close>, \<open>can_apply_to\<close> is
  false on the multiply node of \<open>4x\<close>.
\<close>

theorem C3_can_apply_to_witness:
  "can_apply_to False heap_ab 2 \<and> \<not> can_apply_to True heap_4x 0 \<and>
   can_apply_to True heap_4x 2 \<and>
   kind (cells heap_4x 2) = MultiplyExpression \<and> canonical_order heap_4x 2 \<and>
   \<not> can_apply_to False heap_4x 2 \<and>
   \<not> canonical_order heap_x4 2 \<and> can_apply_to False heap_x4 2"
  using C3_can_apply_to [of heap_ab 2 False] C3_can_apply_to [of heap_4x 0 True]
    C3_can_apply_to [of heap_4x 2 True] C3_can_apply_to [of heap_4x 2 False]
    C3_can_apply_to [of heap_x4 2 False]
  by (simp add: heap_ab_cells heap_4x_cells heap_x4_cells canonical_order_def
      variable_power_constant_def isinstance_def blank_def)

text \<open>
  C3, as the claim states it, fails: it makes \<open>can_apply_to\<close> false of a multiply
  node in canonical order when the \<open>preferred\<close> flag is set. On the multiply node of
  \<open>4x\<close>, with \<open>preferred = True\<close>, the code answers true.
\<close>

theorem C3_preferred_counterexample:
  "kind (cells heap_4x 2) = MultiplyExpression \<and> canonical_order heap_4x 2 \<and>
   can_apply_to True heap_4x 2"
  by (simp add: heap_4x_cells canonical_order_def isinstance_def blank_def can_apply_to_def)

subsection \<open>Evaluation of a variable\<close>

text \<open>
  C4, at the failing input: the variable \<open>x\<close> evaluated under the bindings
  \<open>{x: 0}\<close>. The identifier is present, yet the evaluation raises.
\<close>

theorem C4_evaluate_bound_to_zero:
  "evaluate pw 1 heap_x (Some [(''x'', PyNum 0)]) 0 = Inl (Exception unbound_message)"
  by (simp add: heap_x_cell blank_def VariableExpression_evaluate_def)

subsection \<open>Type ids\<close>

lemma MathTypeKeysMax_eq: "MathTypeKeysMax = 52"
  by (simp add: MathTypeKeysMax_def MathTypeKeys_def)

lemma exact_mod10_int:
  "(of_int v :: real) - 10 * of_int \<lfloor>(of_int v :: real) / 10\<rfloor> = of_int (v mod 10)"
proof -
  have "\<lfloor>(of_int v :: real) / 10\<rfloor> = v div 10"
    by (metis floor_divide_of_int_eq of_int_numeral)
  then have "(of_int v :: real) - 10 * of_int \<lfloor>(of_int v :: real) / 10\<rfloor> =
      of_int (v - 10 * (v div 10))"
    by simp
  also have "v - 10 * (v div 10) = v mod 10"
    by (simp add: minus_mult_div_eq_mod)
  finally show ?thesis .
qed

lemma py_mod10_int:
  "rnd (of_int (v mod 10)) = of_int (v mod 10) \<Longrightarrow> py_mod10 rnd (of_int v) = of_int (v mod 10)"
  unfolding py_mod10_def exact_mod10_int .

lemma py_int_digit:
  assumes "0 \<le> m" and "m < 10"
  shows "py_int m = int (nat \<lfloor>m\<rfloor>) \<and> nat \<lfloor>m\<rfloor> < 10"
proof -
  have a: "\<lfloor>m\<rfloor> < 10" using assms(2) by (simp add: floor_less_iff)
  have b: "0 \<le> \<lfloor>m\<rfloor>" using assms(1) by simp
  have "nat \<lfloor>m\<rfloor> < 10" using a b by arith
  then show ?thesis using assms(1) b by (simp add: py_int_def)
qed

lemma str_int_digit: "d < 10 \<Longrightarrow> str_int (int d) = str_digit d"
  by (simp add: str_int_def str_nat.simps)

lemma str_int_10: "str_int 10 = ''10''"
  by (simp add: str_int_def str_nat.simps [of 10] str_nat.simps [of "Suc 0"] str_digit_def)

lemma sample_round_int: "sample_round (of_int k) = of_int k"
proof -
  have "\<lfloor>(of_int k :: real) * 1024 + 1 / 2\<rfloor> = k * 1024 + \<lfloor>(1 / 2 :: real)\<rfloor>"
    by (metis floor_add_int of_int_mult of_int_numeral add.commute)
  then show ?thesis by (simp add: sample_round_def)
qed

lemma lower_slots:
  "list_all (\<lambda>i. lookup_key (''variable_'' @ [lower_char (lowercase ! i)]) = Inr (27 + i)) [0..<26]"
  by code_simp

lemma upper_slots:
  "list_all (\<lambda>i. lookup_key (''variable_'' @ [lower_char (uppercase ! i)]) = Inr (27 + i)) [0..<26]"
  by code_simp

lemma digit_slots:
  "list_all (\<lambda>d. lookup_key (''constant_'' @ str_digit d) = Inr (16 + d)) [0..<10]"
  by code_simp

lemma lookup_lower:
  assumes "i < 26"
  shows "lookup_key (''variable_'' @ [lower_char (lowercase ! i)]) = Inr (27 + i)"
  using lower_slots assms by (simp add: list_all_iff)

lemma lookup_upper:
  assumes "i < 26"
  shows "lookup_key (''variable_'' @ [lower_char (uppercase ! i)]) = Inr (27 + i)"
  using upper_slots assms by (simp add: list_all_iff)

lemma lookup_constant_digit:
  assumes "d < 10"
  shows "lookup_key (''constant_'' @ str_digit d) = Inr (16 + d)"
  using digit_slots assms by (simp add: list_all_iff)

lemma type_id_constant:
  assumes "kind n = ConstantExpression" and "const_value n = Some (PyNum r)"
    and "0 \<le> py_mod10 rnd r" and "py_mod10 rnd r < 10"
  shows "type_id rnd n = Inr (16 + nat \<lfloor>py_mod10 rnd r\<rfloor>)"
    and "nat \<lfloor>py_mod10 rnd r\<rfloor> < 10"
proof -
  note d = py_int_digit [OF assms(3,4)]
  from d show "nat \<lfloor>py_mod10 rnd r\<rfloor> < 10" by simp
  have "type_id rnd n = lookup_key (''constant_'' @ str_int (int (nat \<lfloor>py_mod10 rnd r\<rfloor>)))"
    using assms(1,2) d by (simp add: type_id_def)
  also have "\<dots> = lookup_key (''constant_'' @ str_digit (nat \<lfloor>py_mod10 rnd r\<rfloor>))"
    using d by (simp only: str_int_digit)
  also have "\<dots> = Inr (16 + nat \<lfloor>py_mod10 rnd r\<rfloor>)"
    using d by (simp only: lookup_constant_digit)
  finally show "type_id rnd n = Inr (16 + nat \<lfloor>py_mod10 rnd r\<rfloor>)" .
qed

text \<open>
  The other outcome of a constant: when \<open>value % 10\<close> is rounded to \<open>10.0\<close>, the key
  is \<open>constant_10\<close>, which \<open>MathTypeKeys\<close> does not hold.
\<close>

lemma type_id_rounded_to_ten:
  assumes "kind n = ConstantExpression" and "const_value n = Some (PyNum r)"
    and "py_mod10 rnd r = 10"
  shows "type_id rnd n = Inl (KeyError ''constant_10'')"
  using assms
  by (simp add: type_id_def py_int_def str_int_10 lookup_key_def MathTypeKeys_def)

text \<open>
  C8, as the code has it. For the kinds negate, equal, add, subtract, multiply, divide
  and power, \<open>type_id\<close> returns an integer in \<open>[0, MathTypeKeysMax]\<close>. A constant
  with a number \<open>r\<close> as its value is mapped to slot \<open>16 + int(r % 10)\<close>, whenever
  \<open>r % 10\<close> is at least 0 and below 10. For a whole number \<open>v\<close>, on which \<open>%\<close> is
  exact, that is slot \<open>16 + (v mod 10)\<close>, with the remainder of the floor division:
  the last digit of \<open>v\<close> when \<open>v\<close> is not negative, and for instance 7 for \<open>-3\<close>. A
  variable without an identifier is mapped to slot 26, and one whose identifier starts with
  the \<open>i\<close>-th letter, in either case, to slot \<open>27 + i\<close>. Nothing is said of the
  function kinds, of a constant without a value, of a value whose \<open>r % 10\<close> is rounded
  to 10, and of identifiers that start with another character.
\<close>

theorem C8_type_id:
  "(kind n \<in> {NegateExpression, EqualExpression, AddExpression, SubtractExpression,
               MultiplyExpression, DivideExpression, PowerExpression} \<longrightarrow>
      (\<exists>t. type_id rnd n = Inr t \<and> t \<le> MathTypeKeysMax)) \<and>
   (kind n = ConstantExpression \<and> const_value n = Some (PyNum r) \<and>
      0 \<le> py_mod10 rnd r \<and> py_mod10 rnd r < 10 \<longrightarrow>
      type_id rnd n = Inr (16 + nat (py_int (py_mod10 rnd r))) \<and>
      16 + nat (py_int (py_mod10 rnd r)) \<le> MathTypeKeysMax) \<and>
   (kind n = ConstantExpression \<and> const_value n = Some (PyNum (of_int v)) \<and>
      rnd (of_int (v mod 10)) = of_int (v mod 10) \<longrightarrow>
      type_id rnd n = Inr (16 + nat (v mod 10))) \<and>
   (kind n = VariableExpression \<and> ident n = None \<longrightarrow> type_id rnd n = Inr 26) \<and>
   (kind n = VariableExpression \<and> i < 26 \<and>
      (ident n = Some (lowercase ! i # rest) \<or> ident n = Some (uppercase ! i # rest)) \<longrightarrow>
      type_id rnd n = Inr (27 + i) \<and> 27 + i \<le> MathTypeKeysMax)"
proof (intro conjI impI)
  assume "kind n \<in> {NegateExpression, EqualExpression, AddExpression, SubtractExpression,
               MultiplyExpression, DivideExpression, PowerExpression}"
  then show "\<exists>t. type_id rnd n = Inr t \<and> t \<le> MathTypeKeysMax"
    by (auto simp: type_id_def lookup_key_def MathTypeKeys_def MathTypeKeysMax_eq)
next
  assume a: "kind n = ConstantExpression \<and> const_value n = Some (PyNum r) \<and>
      0 \<le> py_mod10 rnd r \<and> py_mod10 rnd r < 10"
  then have d: "py_int (py_mod10 rnd r) = int (nat \<lfloor>py_mod10 rnd r\<rfloor>)"
    using py_int_digit [of "py_mod10 rnd r"] by simp
  from a show "type_id rnd n = Inr (16 + nat (py_int (py_mod10 rnd r)))"
    using type_id_constant(1) [of n r rnd] unfolding d by simp
  from a show "16 + nat (py_int (py_mod10 rnd r)) \<le> MathTypeKeysMax"
    using type_id_constant(2) [of n r rnd] unfolding d by (simp add: MathTypeKeysMax_eq)
next
  assume a: "kind n = ConstantExpression \<and> const_value n = Some (PyNum (of_int v)) \<and>
      rnd (of_int (v mod 10)) = of_int (v mod 10)"
  then have m: "py_mod10 rnd (of_int v) = of_int (v mod 10)"
    using py_mod10_int [of rnd v] by simp
  have "0 \<le> py_mod10 rnd (of_int v)" "py_mod10 rnd (of_int v) < 10"
    unfolding m by simp_all
  from type_id_constant(1) [OF _ _ this] a
  show "type_id rnd n = Inr (16 + nat (v mod 10))"
    unfolding m by simp
next
  assume "kind n = VariableExpression \<and> ident n = None"
  then show "type_id rnd n = Inr 26"
    by (simp add: type_id_def lookup_key_def MathTypeKeys_def)
next
  assume a: "kind n = VariableExpression \<and> i < 26 \<and>
      (ident n = Some (lowercase ! i # rest) \<or> ident n = Some (uppercase ! i # rest))"
  then show "type_id rnd n = Inr (27 + i)"
    using lookup_lower [of i] lookup_upper [of i] by (auto simp: type_id_def)
  from a show "27 + i \<le> MathTypeKeysMax"
    by (simp add: MathTypeKeysMax_eq)
qed

lemma type_id_42:
  "type_id sample_round ((blank ConstantExpression)\<lparr>const_value := Some (PyNum 42)\<rparr>) = Inr 18"
proof -
  have m: "py_mod10 sample_round 42 = 2"
    using py_mod10_int [of sample_round 42] sample_round_int [of 2] by simp
  have "0 \<le> py_mod10 sample_round 42" "py_mod10 sample_round 42 < 10"
    unfolding m by simp_all
  from type_id_constant(1) [OF _ _ this,
      of "(blank ConstantExpression)\<lparr>const_value := Some (PyNum 42)\<rparr>"]
  show ?thesis unfolding m by (simp add: blank_def)
qed

text \<open>
  The witness: an add node, the constants 42 and \<open>-3\<close> and the variables \<open>x\<close> and
  \<open>Y\<close>.
\<close>

theorem C8_type_id_witness:
  "type_id sample_round (blank AddExpression) = Inr 3 \<and>
   type_id sample_round ((blank ConstantExpression)\<lparr>const_value := Some (PyNum 42)\<rparr>) = Inr 18 \<and>
   type_id sample_round ((blank ConstantExpression)\<lparr>const_value := Some (PyNum (- 3))\<rparr>) = Inr 23 \<and>
   type_id sample_round (blank VariableExpression) = Inr 26 \<and>
   type_id sample_round ((blank VariableExpression)\<lparr>ident := Some ''x''\<rparr>) = Inr 50 \<and>
   type_id sample_round ((blank VariableExpression)\<lparr>ident := Some ''Y''\<rparr>) = Inr 51"
proof -
  have "type_id sample_round (blank AddExpression) = Inr 3"
    using C8_type_id [of "blank AddExpression" sample_round 0 0 0 "[]"]
    by (simp add: blank_def type_id_def lookup_key_def MathTypeKeys_def)
  moreover have "type_id sample_round
      ((blank ConstantExpression)\<lparr>const_value := Some (PyNum 42)\<rparr>) = Inr 18"
    using C8_type_id [of "(blank ConstantExpression)\<lparr>const_value := Some (PyNum 42)\<rparr>"
        sample_round 0 42 0 "[]"] sample_round_int [of 2]
    by (simp add: blank_def)
  moreover have "type_id sample_round
      ((blank ConstantExpression)\<lparr>const_value := Some (PyNum (- 3))\<rparr>) = Inr 23"
    using C8_type_id [of "(blank ConstantExpression)\<lparr>const_value := Some (PyNum (- 3))\<rparr>"
        sample_round 0 "- 3" 0 "[]"] sample_round_int [of 7]
    by (simp add: blank_def)
  moreover have "type_id sample_round (blank VariableExpression) = Inr 26"
    using C8_type_id [of "blank VariableExpression" sample_round 0 0 0 "[]"]
    by (simp add: blank_def)
  moreover have "type_id sample_round ((blank VariableExpression)\<lparr>ident := Some ''x''\<rparr>) = Inr 50"
    using C8_type_id [of "(blank VariableExpression)\<lparr>ident := Some ''x''\<rparr>" sample_round 0 0 23 "[]"]
    by (simp add: blank_def lowercase_def)
  moreover have "type_id sample_round ((blank VariableExpression)\<lparr>ident := Some ''Y''\<rparr>) = Inr 51"
    using C8_type_id [of "(blank VariableExpression)\<lparr>ident := Some ''Y''\<rparr>" sample_round 0 0 24 "[]"]
    by (simp add: blank_def uppercase_def)
  ultimately show ?thesis by simp
qed

text \<open>
  C8, as the claim states it, fails. The constant 42 is mapped to slot 18, the slot of
  its last digit 2, not to slot 20 of its first digit 4; and \<open>type_id\<close> of an
  \<open>AbsExpression\<close> raises \<open>KeyError\<close>, since \<open>MathTypeKeys\<close> has no key
  \<open>abs\<close>.
\<close>

theorem C8_type_id_counterexample:
  "type_id sample_round ((blank ConstantExpression)\<lparr>const_value := Some (PyNum 42)\<rparr>) = Inr 18 \<and>
   lookup_key ''constant_4'' = Inr 20 \<and>
   type_id sample_round (blank AbsExpression) = Inl (KeyError ''abs'')"
  by (simp add: type_id_42) (simp add: blank_def type_id_def lookup_key_def MathTypeKeys_def)

subsection \<open>Differentiation\<close>

text \<open>
  C5, at two failing inputs. The derivative of \<open>x - x\<close> by \<open>x\<close> is an
  \<open>AddExpression\<close> of the derivatives of the two children, which are both the
  constant 1: it evaluates to 2, where the difference is 0. The derivative of the constant
  3 raises.
\<close>

theorem C5_differentiate_failing_inputs:
  "(case differentiate 2 heap_x_minus_x 2 ''x'' of
      Inl e \<Rightarrow> False
    | Inr (h', d) \<Rightarrow>
        kind (cells h' d) = AddExpression \<and>
        map_option (\<lambda>l. const_value (cells h' l)) (left (cells h' d)) = Some (Some (PyNum 1)) \<and>
        map_option (\<lambda>r. const_value (cells h' r)) (right (cells h' d)) = Some (Some (PyNum 1)) \<and>
        evaluate pw 2 h' None d = Inr (Some (PyNum 2))) \<and>
   differentiate 1 heap_3 0 ''x'' = Inl (Exception abstract_message)"
  by (simp add: fuel_numeral heap_x_minus_x_cells heap_3_cell init_defs arith2_def
      operate2_def is_unary_def Let_def)

subsection \<open>The commutative swap\<close>

lemma apply_to_swapped:
  "apply_to p f h n =
     (if can_apply_to p h n then
        (case get_root f (swapped h n) n of
           Inl e \<Rightarrow> Inl e
         | Inr r \<Rightarrow> Inr (swapped h n, \<lparr>before = n, after = Some n, root = Some r\<rparr>))
      else Inl InapplicableRule)"
  by (simp add: apply_to_def BaseRule_apply_to_def done_change_def swapped_def Let_def
      split: sum.splits)

lemma swapped_links:
  "left (cells (swapped h n) n) = right (cells h n)"
  "right (cells (swapped h n) n) = left (cells h n)"
  "changed (cells (swapped h n) n)"
  "next_free (swapped h n) = next_free h"
  by (simp_all add: swapped_def set_changed_def set_left_def set_right_def upd_def Let_def
      split: option.splits)

lemma swapped_others:
  "m \<noteq> n \<Longrightarrow> left (cells (swapped h n) m) = left (cells h m) \<and>
     right (cells (swapped h n) m) = right (cells h m)"
  by (simp add: swapped_def set_changed_def set_left_def set_right_def upd_def Let_def
      split: option.splits)

lemma swapped_payload:
  "kind (cells (swapped h n) m) = kind (cells h m)"
  "const_value (cells (swapped h n) m) = const_value (cells h m)"
  "ident (cells (swapped h n) m) = ident (cells h m)"
  "operatorleft (cells (swapped h n) m) = operatorleft (cells h m)"
  "rendering_change (cells (swapped h n) m) = rendering_change (cells h m)"
  by (simp_all add: swapped_def set_changed_def set_left_def set_right_def upd_def Let_def
      split: option.splits)

lemma swapped_linked:
  assumes "children_linked h n"
  shows "swapped h n = upd n swap_links h"
proof -
  have "cells (swapped h n) = cells (upd n swap_links h)"
    using assms
    by (auto simp: fun_eq_iff swapped_def set_changed_def set_left_def set_right_def upd_def
        swap_links_def children_linked_def Let_def split: option.splits)
  moreover have "next_free (swapped h n) = next_free (upd n swap_links h)"
    by (simp add: swapped_links upd_def)
  ultimately show ?thesis by (simp add: heap.equality)
qed

text \<open>
  C2, as the code has it. \<open>apply_to\<close> works in place: it allocates no node, the
  change it returns refers to the node it was given and to that node's root, and after the
  call that node has its former right child on the left and its former left child on the
  right and is marked as changed. Every other node keeps its children.
\<close>

theorem C2_apply_to_in_place:
  assumes "apply_to p f h n = Inr (h', c)"
  shows "next_free h' = next_free h \<and>
         before c = n \<and> after c = Some n \<and> get_root f h' n = Inr (the (root c)) \<and>
         left (cells h' n) = right (cells h n) \<and> right (cells h' n) = left (cells h n) \<and>
         changed (cells h' n) \<and>
         (\<forall>m. m \<noteq> n \<longrightarrow> left (cells h' m) = left (cells h m) \<and>
                          right (cells h' m) = right (cells h m))"
  using assms
  by (auto simp: apply_to_swapped swapped_links swapped_others split: if_splits sum.splits)

theorem C2_apply_to_in_place_witness:
  "apply_to True 1 heap_ab 2 = Inr (swapped heap_ab 2, \<lparr>before = 2, after = Some 2, root = Some 2\<rparr>) \<and>
   next_free (swapped heap_ab 2) = 3 \<and>
   left (cells (swapped heap_ab 2) 2) = Some 1 \<and> right (cells (swapped heap_ab 2) 2) = Some 0 \<and>
   left (cells (swapped heap_ab 2) 0) = None"
proof -
  have a: "apply_to True 1 heap_ab 2 =
      Inr (swapped heap_ab 2, \<lparr>before = 2, after = Some 2, root = Some 2\<rparr>)"
    by (simp add: apply_to_swapped can_apply_to_def heap_ab_cells blank_def swapped_def
        set_changed_def set_left_def set_right_def upd_def)
  from C2_apply_to_in_place [OF a] a show ?thesis
    by (simp add: heap_ab_cells blank_def)
qed

text \<open>
  C2, as the claim states it, fails. \<open>apply_to\<close> on the root of \<open>a + b\<close>
  succeeds; afterwards the root of that very tree has \<open>b\<close> as its left child, where
  it had \<open>a\<close>; the change's \<open>after\<close> is the root itself; and the heap holds the
  three nodes it held before, so nothing was cloned.
\<close>

theorem C2_apply_to_counterexample:
  "\<not> isl (apply_to True 1 heap_ab 2) \<and>
   left (cells heap_ab 2) = Some 0 \<and>
   left (cells (fst (projr (apply_to True 1 heap_ab 2))) 2) = Some 1 \<and>
   after (snd (projr (apply_to True 1 heap_ab 2))) = Some 2 \<and>
   next_free heap_ab = 3 \<and>
   next_free (fst (projr (apply_to True 1 heap_ab 2))) = 3"
  by (simp add: apply_to_swapped can_apply_to_def heap_ab_cells blank_def swapped_def
      set_changed_def set_left_def set_right_def upd_def)

lemma py_add_commute: "py_add x y = py_add y x"
  by (cases x; cases y) simp_all

lemma py_mul_commute: "py_mul x y = py_mul y x"
  by (cases x; cases y) simp_all

lemma operate2_commute:
  assumes "k = AddExpression \<or> k = MultiplyExpression"
  shows "operate2 pw k one two = operate2 pw k two one"
  using assms
  by (auto simp: operate2_def arith2_def py_add_commute py_mul_commute split: option.splits)

lemma can_apply_to_kind:
  "can_apply_to p h n \<Longrightarrow> kind (cells h n) = AddExpression \<or> kind (cells h n) = MultiplyExpression"
  by (auto simp: can_apply_to_def Let_def split: if_splits)

lemma get_root_parents:
  assumes "\<And>x. parent (cells h' x) = parent (cells h x)"
  shows "get_root f h' a = get_root f h a"
  using assms by (induction f arbitrary: a) (simp_all split: option.splits)

lemma evaluate_swap:
  assumes k: "kind (cells h n) = AddExpression \<or> kind (cells h n) = MultiplyExpression"
  shows "evaluate pw g h ctx x = Inr v \<Longrightarrow> evaluate pw g (upd n swap_links h) ctx x = Inr v"
proof (induction g arbitrary: x v)
  case 0
  then show ?case by simp
next
  case (Suc g)
  show ?case
  proof (cases "x = n")
    case False
    then have same: "cells (upd n swap_links h) x = cells h x"
      by (simp add: upd_def)
    from Suc.prems show ?thesis
      by (auto simp: same Let_def dest!: Suc.IH split: if_splits option.splits sum.splits)
  next
    case True
    from k have nk: "kind (cells h n) \<noteq> ConstantExpression" "kind (cells h n) \<noteq> VariableExpression"
      "\<not> is_unary (kind (cells h n))"
      by (auto simp: is_unary_def)
    from Suc.prems True nk obtain l r one two where
      l: "left (cells h n) = Some l" and r: "right (cells h n) = Some r" and
      el: "evaluate pw g h ctx l = Inr one" and er: "evaluate pw g h ctx r = Inr two" and
      op: "operate2 pw (kind (cells h n)) one two = Inr v"
      by (auto simp: Let_def split: option.splits sum.splits)
    have cell: "kind (cells (upd n swap_links h) n) = kind (cells h n)"
      "left (cells (upd n swap_links h) n) = Some r"
      "right (cells (upd n swap_links h) n) = Some l"
      by (simp_all add: upd_def swap_links_def l r)
    show ?thesis
      using nk Suc.IH [OF el] Suc.IH [OF er] op operate2_commute [OF k, of pw one two]
      by (simp add: True cell Let_def)
  qed
qed

text \<open>
  C1. Let \<open>can_apply_to\<close> hold of the node \<open>n\<close>, and let its children name it as
  their parent. If the root \<open>r\<close> of its tree evaluates to \<open>v\<close> under the bindings
  \<open>ctx\<close>, then \<open>apply_to\<close> succeeds, the root of the change is \<open>r\<close>, and it
  evaluates to \<open>v\<close> under \<open>ctx\<close> after the swap, with the same fuel.
\<close>

theorem C1_swap_preserves_value:
  assumes "can_apply_to p h n" and "children_linked h n" and "get_root f h n = Inr r"
    and "evaluate pw g h ctx r = Inr v"
  shows "\<exists>h' c. apply_to p f h n = Inr (h', c) \<and> root c = Some r \<and>
           evaluate pw g h' ctx r = Inr v"
proof -
  have sw: "swapped h n = upd n swap_links h"
    using assms(2) by (rule swapped_linked)
  have "get_root f (upd n swap_links h) n = get_root f h n"
    by (rule get_root_parents) (simp add: upd_def swap_links_def)
  with assms(1,3) have "apply_to p f h n =
      Inr (upd n swap_links h, \<lparr>before = n, after = Some n, root = Some r\<rparr>)"
    by (simp add: apply_to_swapped sw)
  moreover have "evaluate pw g (upd n swap_links h) ctx r = Inr v"
    using can_apply_to_kind [OF assms(1)] assms(4) by (rule evaluate_swap)
  ultimately show ?thesis by simp
qed

text \<open>The witness: the add node of \<open>2 * (a + b)\<close>, under \<open>a = 2\<close> and \<open>b = 3\<close>.\<close>

theorem C1_swap_preserves_value_witness:
  "\<exists>h' c. apply_to True 2 heap_2ab 2 = Inr (h', c) \<and> root c = Some 4 \<and>
     evaluate sample_power 3 h' (Some [(''a'', PyNum 2), (''b'', PyNum 3)]) 4 = Inr (Some (PyNum 10))"
proof (rule C1_swap_preserves_value)
  show "can_apply_to True heap_2ab 2"
    by (simp add: can_apply_to_def heap_2ab_cells blank_def)
  show "children_linked heap_2ab 2"
    by (simp add: children_linked_def heap_2ab_cells blank_def)
  show "get_root 2 heap_2ab 2 = Inr 4"
    by (simp add: fuel_numeral heap_2ab_cells blank_def)
  show "evaluate sample_power 3 heap_2ab (Some [(''a'', PyNum 2), (''b'', PyNum 3)]) 4 =
      Inr (Some (PyNum 10))"
    by (simp add: fuel_numeral heap_2ab_cells blank_def is_unary_def Let_def operate2_def
        arith2_def VariableExpression_evaluate_def)
qed

subsection \<open>Rendering along a simulation\<close>

lemma render_simD:
  assumes "render_sim R colr h h'" and "R a a'"
  shows "kind (cells h' a') = kind (cells h a)"
    and "kind (cells h a) = ConstantExpression \<Longrightarrow>
           const_value (cells h' a') = const_value (cells h a)"
    and "kind (cells h a) = VariableExpression \<Longrightarrow>
           ident (cells h' a') = ident (cells h a)"
    and "operatorleft (cells h' a') = operatorleft (cells h a)"
    and "with_color colr (cells h' a') t = with_color colr (cells h a) t"
    and "rel_option R (left (cells h a)) (left (cells h' a'))"
    and "rel_option R (right (cells h a)) (right (cells h' a'))"
    and "map_option (\<lambda>p. kind (cells h' p)) (parent (cells h' a')) =
          map_option (\<lambda>p. kind (cells h p)) (parent (cells h a))"
  using assms unfolding render_sim_def by blast+

lemma sim_self_parens:
  assumes "render_sim R colr h h'" and "R a a'"
  shows "self_parens h' a' = self_parens h a"
  using render_simD(1,8) [OF assms]
  by (cases "parent (cells h a)"; cases "parent (cells h' a')") (auto simp: self_parens_def Let_def)

lemma sim_isinstance:
  assumes "render_sim R colr h h'" and "rel_option R x x'"
  shows "isinstance h' x' k = isinstance h x k"
  using assms(2) render_simD(1) [OF assms(1)]
  by (cases x; cases x') (auto simp: isinstance_def)

lemma sim_left_parens:
  assumes "render_sim R colr h h'" and "R a a'"
  shows "left_parens h' a' = left_parens h a"
proof (cases "left (cells h a)")
  case None
  with render_simD(6) [OF assms] show ?thesis by (simp add: left_parens_def)
next
  case (Some l)
  with render_simD(6) [OF assms] obtain l' where l': "left (cells h' a') = Some l'" "R l l'"
    by (cases "left (cells h' a')") auto
  show ?thesis
    using render_simD(1) [OF assms] render_simD(1) [OF assms(1) l'(2)]
      sim_self_parens [OF assms(1) l'(2)]
    by (simp add: left_parens_def Some l'(1))
qed

lemma sim_right_parens:
  assumes "render_sim R colr h h'" and "R a a'"
  shows "right_parens h' a' = right_parens h a"
proof (cases "right (cells h a)")
  case None
  with render_simD(7) [OF assms] show ?thesis by (simp add: right_parens_def)
next
  case (Some r)
  with render_simD(7) [OF assms] obtain r' where r': "right (cells h' a') = Some r'" "R r r'"
    by (cases "right (cells h' a')") auto
  show ?thesis
    using render_simD(1) [OF assms] render_simD(1) [OF assms(1) r'(2)]
      sim_self_parens [OF assms(1) r'(2)]
    by (simp add: right_parens_def Some r'(1))
qed

lemma sim_sub:
  assumes "rel_option R x x'" and "\<And>c c'. R c c' \<Longrightarrow> F' c' = F c"
  shows "(case x' of None \<Rightarrow> Inr ''None'' | Some c \<Rightarrow> F' c) =
         (case x of None \<Rightarrow> Inr ''None'' | Some c \<Rightarrow> F c)"
  using assms by (cases x; cases x') auto

lemma to_text_sim:
  assumes sim: "render_sim R colr h h'"
  shows "R a a' \<Longrightarrow> to_text fmt colr g h' a' = to_text fmt colr g h a"
proof (induction g arbitrary: a a')
  case 0
  then show ?case by simp
next
  case (Suc g)
  note d = render_simD [OF sim Suc.prems]
  have subl: "(case left (cells h' a') of None \<Rightarrow> Inr ''None'' | Some c \<Rightarrow> to_text fmt colr g h' c) =
      (case left (cells h a) of None \<Rightarrow> Inr ''None'' | Some c \<Rightarrow> to_text fmt colr g h c)"
    using d(6) Suc.IH by (rule sim_sub)
  have subr: "(case right (cells h' a') of None \<Rightarrow> Inr ''None'' | Some c \<Rightarrow> to_text fmt colr g h' c) =
      (case right (cells h a) of None \<Rightarrow> Inr ''None'' | Some c \<Rightarrow> to_text fmt colr g h c)"
    using d(7) Suc.IH by (rule sim_sub)
  have wc: "with_color colr (cells h' a') = with_color colr (cells h a)"
    by (rule ext) (rule d(5))
  have gc: "rel_option R (get_child (cells h a)) (get_child (cells h' a'))"
    using d(4,6,7) by (simp add: get_child_def)
  have subc: "(case get_child (cells h' a') of None \<Rightarrow> Inr ''None'' | Some c \<Rightarrow> to_text fmt colr g h' c) =
      (case get_child (cells h a) of None \<Rightarrow> Inr ''None'' | Some c \<Rightarrow> to_text fmt colr g h c)"
    using gc Suc.IH by (rule sim_sub)
  have fnc: "(case get_child (cells h' a') of
         None \<Rightarrow> Inr (with_color colr (cells h a) (op_name (kind (cells h a))))
       | Some c \<Rightarrow> (case to_text fmt colr g h' c of Inl e \<Rightarrow> Inl e
            | Inr t \<Rightarrow> Inr (with_color colr (cells h a) (op_name (kind (cells h a)) @ ''('' @ t @ '')'')))) =
      (case get_child (cells h a) of
         None \<Rightarrow> Inr (with_color colr (cells h a) (op_name (kind (cells h a))))
       | Some c \<Rightarrow> (case to_text fmt colr g h c of Inl e \<Rightarrow> Inl e
            | Inr t \<Rightarrow> Inr (with_color colr (cells h a) (op_name (kind (cells h a)) @ ''('' @ t @ '')''))))"
    using gc Suc.IH
    by (cases "get_child (cells h a)"; cases "get_child (cells h' a')") auto
  have none: "(left (cells h' a') = None) = (left (cells h a) = None)"
    "(right (cells h' a') = None) = (right (cells h a) = None)"
    using d(6,7) by (cases "left (cells h a)"; cases "left (cells h' a')"; simp;
        cases "right (cells h a)"; cases "right (cells h' a')"; simp)+
  consider (c) "kind (cells h a) = ConstantExpression"
    | (v) "kind (cells h a) = VariableExpression"
    | (o) "kind (cells h a) \<noteq> ConstantExpression" "kind (cells h a) \<noteq> VariableExpression"
    by blast
  then show ?case
  proof cases
    case c
    with d(2) have "const_value (cells h' a') = const_value (cells h a)" by simp
    then show ?thesis by (simp add: d(1) c wc Let_def split: option.splits)
  next
    case v
    with d(3) have "ident (cells h' a') = ident (cells h a)" by simp
    then show ?thesis by (simp add: d(1) v wc Let_def split: option.splits)
  next
    case o
    show ?thesis
      unfolding to_text.simps Let_def
      by (simp only: d(1) o if_False wc subl subr subc fnc none
          sim_isinstance [OF sim d(6)] sim_isinstance [OF sim d(7)]
          sim_self_parens [OF sim Suc.prems] sim_left_parens [OF sim Suc.prems]
          sim_right_parens [OF sim Suc.prems])
  qed
qed

subsection \<open>The double swap\<close>

lemma to_text_set_changed:
  assumes "rendering_change (cells h n) \<noteq> Some True"
  shows "to_text fmt colr g (set_changed n h) x = to_text fmt colr g h x"
proof -
  have "render_sim (=) colr h (set_changed n h)"
    using assms
    by (auto simp: render_sim_def set_changed_def upd_def with_color_def option.rel_eq
        option.map_comp intro!: option.map_cong)
  then show ?thesis by (rule to_text_sim) simp
qed

lemma swap_links_twice: "swap_links (swap_links x) = x\<lparr>changed := True\<rparr>"
  by (simp add: swap_links_def)

lemma children_linked_swap:
  assumes "children_linked h n"
  shows "children_linked (upd n swap_links h) n"
  using assms
  by (auto simp: children_linked_def upd_def swap_links_def split: option.splits)

lemma double_swap_heap:
  assumes "children_linked h n"
  shows "swapped (swapped h n) n = set_changed n h"
proof -
  have "swapped (swapped h n) n = upd n swap_links (upd n swap_links h)"
    using swapped_linked [OF assms] swapped_linked [OF children_linked_swap [OF assms]]
    by simp
  also have "\<dots> = set_changed n h"
    by (simp add: upd_def set_changed_def swap_links_twice)
  finally show ?thesis .
qed

lemma double_swap_links:
  "left (cells (swapped (swapped h n) n) m) = left (cells h m) \<and>
   right (cells (swapped (swapped h n) n) m) = right (cells h m)"
  by (cases "m = n") (simp_all add: swapped_links swapped_others)

lemma apply_to_result:
  assumes "apply_to p f h n = Inr (h', c)"
  shows "h' = swapped h n"
  using assms by (auto simp: apply_to_swapped split: if_splits sum.splits)

text \<open>
  C10. Two applications of \<open>apply_to\<close> to the same node, one after the other, put
  the \<open>left\<close> and \<open>right\<close> of every node back. If the children of the node name it
  as their parent, the heap after the two swaps is the first heap with the node marked as
  changed, and (unless the node is being rendered as a change) every node renders as
  before. With \<open>preferred = True\<close> both applications succeed on every add or multiply
  node whose root can be reached.
\<close>

theorem C10_double_swap:
  "(apply_to p f h n = Inr (h1, c1) \<and> apply_to p f h1 n = Inr (h2, c2) \<longrightarrow>
      (\<forall>m. left (cells h2 m) = left (cells h m) \<and> right (cells h2 m) = right (cells h m)) \<and>
      (children_linked h n \<longrightarrow>
         h2 = set_changed n h \<and>
         (rendering_change (cells h n) \<noteq> Some True \<longrightarrow>
            (\<forall>g x. to_text fmt colr g h2 x = to_text fmt colr g h x)))) \<and>
   ((kind (cells h n) = AddExpression \<or> kind (cells h n) = MultiplyExpression) \<and>
    children_linked h n \<and> get_root f h n = Inr r \<longrightarrow>
      (\<exists>h1 c1 h2 c2. apply_to True f h n = Inr (h1, c1) \<and> apply_to True f h1 n = Inr (h2, c2)))"
proof (intro conjI impI)
  assume a: "apply_to p f h n = Inr (h1, c1) \<and> apply_to p f h1 n = Inr (h2, c2)"
  then have h2: "h2 = swapped (swapped h n) n"
    using apply_to_result by blast
  show "\<forall>m. left (cells h2 m) = left (cells h m) \<and> right (cells h2 m) = right (cells h m)"
    unfolding h2 using double_swap_links by blast
  assume l: "children_linked h n"
  show h2': "h2 = set_changed n h"
    unfolding h2 using l by (rule double_swap_heap)
  assume "rendering_change (cells h n) \<noteq> Some True"
  then show "\<forall>g x. to_text fmt colr g h2 x = to_text fmt colr g h x"
    unfolding h2' by (simp add: to_text_set_changed)
next
  assume a: "(kind (cells h n) = AddExpression \<or> kind (cells h n) = MultiplyExpression) \<and>
    children_linked h n \<and> get_root f h n = Inr r"
  then have l: "children_linked h n" and r: "get_root f h n = Inr r" by simp_all
  have c: "can_apply_to True h n"
    using a by (auto simp: can_apply_to_def)
  have sw: "swapped h n = upd n swap_links h"
    using l by (rule swapped_linked)
  have sw2: "swapped (upd n swap_links h) n = set_changed n h"
    using double_swap_heap [OF l] by (simp add: sw)
  have c': "can_apply_to True (upd n swap_links h) n"
    using a by (auto simp: can_apply_to_def upd_def swap_links_def)
  have r1: "get_root f (upd n swap_links h) n = Inr r"
    using r get_root_parents [of "upd n swap_links h" h f n] by (simp add: upd_def swap_links_def)
  have r2: "get_root f (set_changed n h) n = Inr r"
    using r get_root_parents [of "set_changed n h" h f n] by (simp add: upd_def set_changed_def)
  have "apply_to True f h n = Inr (upd n swap_links h, \<lparr>before = n, after = Some n, root = Some r\<rparr>)"
    using c r1 by (simp add: apply_to_swapped sw)
  moreover have "apply_to True f (upd n swap_links h) n =
      Inr (set_changed n h, \<lparr>before = n, after = Some n, root = Some r\<rparr>)"
    using c' r2 by (simp add: apply_to_swapped sw2)
  ultimately show "\<exists>h1 c1 h2 c2. apply_to True f h n = Inr (h1, c1) \<and> apply_to True f h1 n = Inr (h2, c2)"
    by blast
qed

theorem C10_double_swap_witness:
  "apply_to True 2 heap_2ab 2 = Inr (swapped heap_2ab 2, \<lparr>before = 2, after = Some 2, root = Some 4\<rparr>) \<and>
   apply_to True 2 (swapped heap_2ab 2) 2 =
     Inr (set_changed 2 heap_2ab, \<lparr>before = 2, after = Some 2, root = Some 4\<rparr>) \<and>
   left (cells (set_changed 2 heap_2ab) 2) = Some 0 \<and> right (cells (set_changed 2 heap_2ab) 2) = Some 1 \<and>
   to_text sample_fmt sample_colr 3 (swapped heap_2ab 2) 4 = Inr ''2 * (b + a)'' \<and>
   to_text sample_fmt sample_colr 3 (set_changed 2 heap_2ab) 4 = Inr ''2 * (a + b)''"
proof -
  have l: "children_linked heap_2ab 2"
    by (simp add: children_linked_def heap_2ab_cells blank_def)
  have sw: "swapped heap_2ab 2 = upd 2 swap_links heap_2ab"
    using l by (rule swapped_linked)
  have a1: "apply_to True 2 heap_2ab 2 =
      Inr (swapped heap_2ab 2, \<lparr>before = 2, after = Some 2, root = Some 4\<rparr>)"
    by (simp add: apply_to_swapped sw can_apply_to_def fuel_numeral heap_2ab_cells blank_def
        upd_def swap_links_def)
  have a2: "apply_to True 2 (swapped heap_2ab 2) 2 =
      Inr (set_changed 2 heap_2ab, \<lparr>before = 2, after = Some 2, root = Some 4\<rparr>)"
    using double_swap_heap [OF l]
    by (simp add: apply_to_swapped can_apply_to_def fuel_numeral heap_2ab_cells blank_def
        upd_def swap_links_def set_changed_def sw)
  have t0: "to_text sample_fmt sample_colr 3 heap_2ab 4 = Inr ''2 * (a + b)''"
    by (simp add: fuel_numeral heap_2ab_cells blank_def Let_def is_unary_def isinstance_def
        with_color_def sample_fmt_def str_digit_def self_parens_def left_parens_def
        right_parens_def is_binary_def get_priority_def parens_if_def op_name_def)
  have t1: "to_text sample_fmt sample_colr 3 (swapped heap_2ab 2) 4 = Inr ''2 * (b + a)''"
    by (simp add: sw fuel_numeral heap_2ab_cells blank_def Let_def is_unary_def isinstance_def
        with_color_def sample_fmt_def str_digit_def self_parens_def left_parens_def
        right_parens_def is_binary_def get_priority_def parens_if_def op_name_def
        upd_def swap_links_def)
  from C10_double_swap [of True 2 heap_2ab 2 "swapped heap_2ab 2"
      "\<lparr>before = 2, after = Some 2, root = Some 4\<rparr>" "set_changed 2 heap_2ab"
      "\<lparr>before = 2, after = Some 2, root = Some 4\<rparr>" sample_fmt sample_colr 4]
    a1 a2 l t0 t1
  show ?thesis
    by (simp add: heap_2ab_cells blank_def set_changed_def upd_def)
qed

subsection \<open>Like terms\<close>

lemma like_distinct:
  assumes "distinct (variables a)" and "distinct (variables b)"
    and "\<not> (variables a = [] \<and> variables b = [])"
  shows "like_summaries a b =
     (set (variables a) = set (variables b) \<and> py_eq (exponent a) (exponent b))"
proof -
  have sub: "(filter (\<lambda>v. v \<notin> set (variables b)) (variables a) = []) =
      (set (variables a) \<subseteq> set (variables b))"
    by (auto simp: filter_empty_conv)
  have "(length (variables a) = length (variables b) \<and> set (variables a) \<subseteq> set (variables b)) =
      (set (variables a) = set (variables b))"
  proof
    assume h: "length (variables a) = length (variables b) \<and> set (variables a) \<subseteq> set (variables b)"
    then have "card (set (variables a)) = card (set (variables b))"
      using assms(1,2) by (simp add: distinct_card)
    with h show "set (variables a) = set (variables b)"
      by (simp add: card_subset_eq)
  next
    assume h: "set (variables a) = set (variables b)"
    then have "length (variables a) = length (variables b)"
      using assms(1,2) by (metis distinct_card)
    with h show "length (variables a) = length (variables b) \<and> set (variables a) \<subseteq> set (variables b)"
      by simp
  qed
  then show ?thesis
    using assms(3) sub by (auto simp: like_summaries_def)
qed

text \<open>
  C9, as the code has it. Two term summaries without variables are like terms, whatever
  their exponents. Otherwise, if neither summary repeats a variable, \<open>terms_are_like\<close>
  is true exactly when the two sets of variables are the same and the exponents are equal
  (\<open>==\<close>). Given two expressions from which \<open>get_term\<close> extracts summaries,
  \<open>terms_are_like\<close> answers as it does on the summaries.
\<close>

theorem C9_terms_are_like:
  "(variables a = [] \<and> variables b = [] \<longrightarrow>
      terms_are_like fuel h (ArgTerm a) (ArgTerm b) = Inr True) \<and>
   (\<not> (variables a = [] \<and> variables b = []) \<and> distinct (variables a) \<and> distinct (variables b) \<longrightarrow>
      terms_are_like fuel h (ArgTerm a) (ArgTerm b) =
        Inr (set (variables a) = set (variables b) \<and> py_eq (exponent a) (exponent b))) \<and>
   (get_term fuel h x = Inr (Some a) \<and> get_term fuel h y = Inr (Some b) \<longrightarrow>
      terms_are_like fuel h (ArgExpr x) (ArgExpr y) = terms_are_like fuel h (ArgTerm a) (ArgTerm b))"
proof (intro conjI impI)
  assume "variables a = [] \<and> variables b = []"
  then show "terms_are_like fuel h (ArgTerm a) (ArgTerm b) = Inr True"
    by (simp add: terms_are_like_def extract_term_def bind_err_def like_summaries_def)
next
  assume "\<not> (variables a = [] \<and> variables b = []) \<and> distinct (variables a) \<and> distinct (variables b)"
  then show "terms_are_like fuel h (ArgTerm a) (ArgTerm b) =
        Inr (set (variables a) = set (variables b) \<and> py_eq (exponent a) (exponent b))"
    using like_distinct [of a b]
    by (simp add: terms_are_like_def extract_term_def bind_err_def)
next
  assume "get_term fuel h x = Inr (Some a) \<and> get_term fuel h y = Inr (Some b)"
  then show "terms_are_like fuel h (ArgExpr x) (ArgExpr y) = terms_are_like fuel h (ArgTerm a) (ArgTerm b)"
    by (simp add: terms_are_like_def extract_term_def bind_err_def)
qed

lemma heap_terms_inorder:
  "inorder 2 heap_terms 0 = Inr [0]"
  "inorder 2 heap_terms 3 = Inr [1, 3, 2]"
  "inorder 2 heap_terms 6 = Inr [4, 6, 5]"
  "inorder 2 heap_terms 9 = Inr [7, 9, 8]"
  "inorder 2 heap_terms 4 = Inr [4]"
  "inorder 2 heap_terms 5 = Inr [5]"
  "inorder 2 heap_terms 7 = Inr [7]"
  "inorder 2 heap_terms 8 = Inr [8]"
  "inorder 2 heap_terms (Suc 0) = Inr [1]"
  "inorder 2 heap_terms 2 = Inr [2]"
  by (simp_all add: fuel_numeral heap_terms_cells blank_def)

lemma sort_xy:
  "sort_identifiers [Some ''x'', Some ''x''] = Inr [Some ''x'', Some ''x'']"
  "sort_identifiers [Some ''x'', Some ''y''] = Inr [Some ''x'', Some ''y'']"
  by (simp_all add: sort_identifiers_def)

lemmas get_term_defs = get_term_def get_term_exponent_def get_term_rest_def bind_err_def
  count_type_def findByType_def is_add_or_sub_def isinstance_def
  filter_coefficients_def resolve_coefficients_def is_leaf_def is_binary_def

lemma heap_terms_get_term:
  "get_term 2 heap_terms 0 = Inr (Some \<lparr>coefficients = [Some (PyNum 5)], variables = [], exponent = None\<rparr>)"
  "get_term 2 heap_terms 3 = Inr (Some \<lparr>coefficients = [], variables = [], exponent = Some (PyNum 3)\<rparr>)"
  "get_term 2 heap_terms 6 = Inr (Some \<lparr>coefficients = [], variables = [Some ''x'', Some ''x''], exponent = None\<rparr>)"
  "get_term 2 heap_terms 9 = Inr (Some \<lparr>coefficients = [], variables = [Some ''x'', Some ''y''], exponent = None\<rparr>)"
  by (simp_all add: get_term_defs heap_terms_inorder heap_terms_cells blank_def sort_xy)


text \<open>
  The witness: \<open>5\<close> against \<open>2^3\<close>, \<open>x * y\<close> against itself, and
  \<open>x * y\<close> against \<open>2^3\<close>.
\<close>

theorem C9_terms_are_like_witness:
  "terms_are_like 2 heap_terms (ArgExpr 0) (ArgExpr 3) = Inr True \<and>
   terms_are_like 2 heap_terms (ArgExpr 9) (ArgExpr 9) = Inr True \<and>
   terms_are_like 2 heap_terms (ArgExpr 9) (ArgExpr 3) = Inr False"
proof -
  let ?five = "\<lparr>coefficients = [Some (PyNum 5)], variables = [], exponent = None\<rparr>"
  let ?cube = "\<lparr>coefficients = [], variables = [], exponent = Some (PyNum 3)\<rparr>"
  let ?xy = "\<lparr>coefficients = [], variables = [Some ''x'', Some ''y''], exponent = None\<rparr>"
  have "terms_are_like 2 heap_terms (ArgExpr 0) (ArgExpr 3) = Inr True"
    using C9_terms_are_like [of ?five ?cube 2 heap_terms 0 3] heap_terms_get_term by simp
  moreover have "terms_are_like 2 heap_terms (ArgExpr 9) (ArgExpr 9) = Inr True"
    using C9_terms_are_like [of ?xy ?xy 2 heap_terms 9 9] heap_terms_get_term by simp
  moreover have "terms_are_like 2 heap_terms (ArgExpr 9) (ArgExpr 3) = Inr False"
    using C9_terms_are_like [of ?xy ?cube 2 heap_terms 9 3] heap_terms_get_term by simp
  ultimately show ?thesis by simp
qed

text \<open>
  C9, as the claim states it, fails. \<open>get_term\<close> extracts a summary from \<open>5\<close>
  and from \<open>2^3\<close>: neither has a variable, one has no exponent and the other the
  exponent 3, and \<open>terms_are_like\<close> is true of them. It also extracts one from
  \<open>x * x\<close> and from \<open>x * y\<close>, whose sets of variables differ, and
  \<open>terms_are_like\<close> is true of them as well.
\<close>

theorem C9_terms_are_like_counterexample:
  "get_term 2 heap_terms 0 =
     Inr (Some \<lparr>coefficients = [Some (PyNum 5)], variables = [], exponent = None\<rparr>) \<and>
   get_term 2 heap_terms 3 =
     Inr (Some \<lparr>coefficients = [], variables = [], exponent = Some (PyNum 3)\<rparr>) \<and>
   terms_are_like 2 heap_terms (ArgExpr 0) (ArgExpr 3) = Inr True \<and>
   get_term 2 heap_terms 6 =
     Inr (Some \<lparr>coefficients = [], variables = [Some ''x'', Some ''x''], exponent = None\<rparr>) \<and>
   get_term 2 heap_terms 9 =
     Inr (Some \<lparr>coefficients = [], variables = [Some ''x'', Some ''y''], exponent = None\<rparr>) \<and>
   terms_are_like 2 heap_terms (ArgExpr 6) (ArgExpr 9) = Inr True"
  by (simp add: heap_terms_get_term terms_are_like_def extract_term_def bind_err_def
      like_summaries_def)

subsection \<open>Parentheses\<close>

lemma wraps_code:
  "wraps_itself h a = self_parens h a"
  "left (cells h a) = Some l \<Longrightarrow> wraps_left h a l = left_parens h a"
  "right (cells h a) = Some r \<Longrightarrow> wraps_right h a r = right_parens h a"
  by (auto simp: wraps_itself_def wraps_left_def wraps_right_def self_parens_def
      left_parens_def right_parens_def Let_def split: option.splits)

text \<open>
  C7, as the code has it. A binary node that is neither a power node nor a compact
  multiply node, with both children, renders as \<open>left OP right\<close> with one space on
  each side of the operator; the left child is wrapped in parentheses exactly when it is a
  binary node of strictly lower priority that does not wrap itself, the right child exactly
  when it is a binary node of lower or equal priority that does not wrap itself, and the
  node itself exactly when its parent is a binary node of strictly higher priority. A power
  node renders as \<open>left^right\<close>, without spaces, and wraps neither its children nor
  itself.
\<close>

theorem C7_to_text_binary:
  "(is_binary (kind (cells h a)) \<and> kind (cells h a) \<noteq> PowerExpression \<and> \<not> compact_multiply h a \<and>
    left (cells h a) = Some l \<and> right (cells h a) = Some r \<and>
    to_text fmt colr g h l = Inr lt \<and> to_text fmt colr g h r = Inr rt \<longrightarrow>
      to_text fmt colr (Suc g) h a =
        Inr (parens_if (wraps_itself h a)
               (parens_if (wraps_left h a l) lt @ '' '' @
                with_color colr (cells h a) (op_name (kind (cells h a))) @ '' '' @
                parens_if (wraps_right h a r) rt))) \<and>
   (kind (cells h a) = PowerExpression \<and>
    left (cells h a) = Some l \<and> right (cells h a) = Some r \<and>
    to_text fmt colr g h l = Inr lt \<and> to_text fmt colr g h r = Inr rt \<longrightarrow>
      to_text fmt colr (Suc g) h a = Inr (lt @ with_color colr (cells h a) ''^'' @ rt))"
proof (intro conjI impI)
  assume a: "is_binary (kind (cells h a)) \<and> kind (cells h a) \<noteq> PowerExpression \<and>
    \<not> compact_multiply h a \<and> left (cells h a) = Some l \<and> right (cells h a) = Some r \<and>
    to_text fmt colr g h l = Inr lt \<and> to_text fmt colr g h r = Inr rt"
  then have k: "kind (cells h a) \<noteq> ConstantExpression" "kind (cells h a) \<noteq> VariableExpression"
    "kind (cells h a) \<noteq> NegateExpression" "\<not> is_unary (kind (cells h a))"
    by (auto simp: is_binary_def is_unary_def)
  from a have c: "\<not> (kind (cells h a) = MultiplyExpression \<and>
      isinstance h (Some l) ConstantExpression \<and>
      (isinstance h (Some r) VariableExpression \<or> isinstance h (Some r) PowerExpression))"
    by (auto simp: compact_multiply_def)
  from a have w: "wraps_left h a l = left_parens h a" "wraps_right h a r = right_parens h a"
    by (simp_all add: wraps_code)
  show "to_text fmt colr (Suc g) h a =
        Inr (parens_if (wraps_itself h a)
               (parens_if (wraps_left h a l) lt @ '' '' @
                with_color colr (cells h a) (op_name (kind (cells h a))) @ '' '' @
                parens_if (wraps_right h a r) rt))"
    using a k c by (auto simp add: Let_def w wraps_code(1))
next
  assume a: "kind (cells h a) = PowerExpression \<and>
    left (cells h a) = Some l \<and> right (cells h a) = Some r \<and>
    to_text fmt colr g h l = Inr lt \<and> to_text fmt colr g h r = Inr rt"
  then show "to_text fmt colr (Suc g) h a = Inr (lt @ with_color colr (cells h a) ''^'' @ rt)"
    by (simp add: Let_def is_unary_def op_name_def)
qed

lemmas render_defs = Let_def is_unary_def isinstance_def with_color_def sample_fmt_def
  str_digit_def self_parens_def left_parens_def right_parens_def is_binary_def
  get_priority_def parens_if_def op_name_def

text \<open>
  The witness: the multiply node and the add node of \<open>2 * (a + b)\<close>, and the inner
  power node of \<open>2^(3^4)\<close>.
\<close>

theorem C7_to_text_binary_witness:
  "to_text sample_fmt sample_colr 3 heap_2ab 4 = Inr ''2 * (a + b)'' \<and>
   to_text sample_fmt sample_colr 2 heap_2ab 2 = Inr ''(a + b)'' \<and>
   to_text sample_fmt sample_colr 2 heap_pow 3 = Inr ''3^4''"
proof -
  have l: "to_text sample_fmt sample_colr 2 heap_2ab 3 = Inr ''2''"
    "to_text sample_fmt sample_colr 1 heap_2ab 0 = Inr ''a''"
    "to_text sample_fmt sample_colr 1 heap_2ab 1 = Inr ''b''"
    "to_text sample_fmt sample_colr 1 heap_pow 1 = Inr ''3''"
    "to_text sample_fmt sample_colr 1 heap_pow 2 = Inr ''4''"
    by (simp_all add: fuel_numeral heap_2ab_cells heap_pow_cells blank_def render_defs)
  have s: "to_text sample_fmt sample_colr 2 heap_2ab 2 = Inr ''(a + b)''"
    using C7_to_text_binary [of heap_2ab 2 0 1 sample_fmt sample_colr
        "pred_numeral (num.Bit0 num.One)" "''a''" "''b''", folded numeral_eq_Suc] l
    by (simp del: to_text.simps add: heap_2ab_cells blank_def is_binary_def
        compact_multiply_def wraps_itself_def wraps_left_def wraps_right_def get_priority_def
        parens_if_def with_color_def op_name_def)
  have "to_text sample_fmt sample_colr 3 heap_2ab 4 = Inr ''2 * (a + b)''"
    using C7_to_text_binary [of heap_2ab 4 3 2 sample_fmt sample_colr
        "pred_numeral (num.Bit1 num.One)" "''2''" "''(a + b)''", folded numeral_eq_Suc] l s
    by (simp del: to_text.simps add: heap_2ab_cells blank_def is_binary_def
        compact_multiply_def wraps_itself_def wraps_left_def wraps_right_def get_priority_def
        parens_if_def with_color_def op_name_def isinstance_def)
  moreover have "to_text sample_fmt sample_colr 2 heap_pow 3 = Inr ''3^4''"
    using C7_to_text_binary [of heap_pow 3 1 2 sample_fmt sample_colr
        "pred_numeral (num.Bit0 num.One)" "''3''" "''4''", folded numeral_eq_Suc] l
    by (simp del: to_text.simps add: heap_pow_cells blank_def with_color_def)
  ultimately show ?thesis using s by simp
qed

text \<open>
  C7, as the claim states it, fails on power nodes. The right child of the root of
  \<open>2^(3^4)\<close> is a binary node of equal priority that does not wrap itself, and the
  root renders as \<open>2^3^4\<close>: no parentheses around the right child, and no spaces
  around the operator.
\<close>

theorem C7_power_counterexample:
  "kind (cells heap_pow 4) = PowerExpression \<and> right (cells heap_pow 4) = Some 3 \<and>
   wraps_right heap_pow 4 3 \<and>
   to_text sample_fmt sample_colr 3 heap_pow 4 = Inr ''2^3^4''"
  by (simp add: fuel_numeral heap_pow_cells blank_def render_defs wraps_right_def wraps_itself_def)

subsection \<open>Cloning from the root\<close>

text \<open>The recursive equations of the tree predicates, for a depth that is written as a numeral.\<close>

lemmas depth_numeral =
  wf_tree.simps(2) [of "pred_numeral k", folded numeral_eq_Suc]
  in_tree.simps(2) [of "pred_numeral k", folded numeral_eq_Suc]
  plain.simps(2) [of "pred_numeral k", folded numeral_eq_Suc]
  for k

text \<open>Copies are kept by changes outside them.\<close>

lemma mirrors_bound: "mirrors d H h e a c \<Longrightarrow> c < e"
  by (cases d) simp_all

lemma mirrors_mono: "mirrors d H h e a c \<Longrightarrow> e \<le> e' \<Longrightarrow> mirrors d H h e' a c"
  by (induction d arbitrary: a c) (auto split: option.splits)

lemma frame_from_child:
  assumes "frame_from c e h h'" and "c < x" and "x < e"
  shows "frame_from x e h h'" and "cells h' x = cells h x"
  using assms by (auto simp: frame_from_def)

lemma frame_from_top:
  assumes "frame_from c e h h'"
  shows "kind (cells h' c) = kind (cells h c)"
    and "left (cells h' c) = left (cells h c)"
    and "right (cells h' c) = right (cells h c)"
    and "alike n (cells h' c) = alike n (cells h c)"
proof -
  have eq: "cells h' c = (cells h c)\<lparr>parent := parent (cells h' c)\<rparr>"
    using assms by (simp add: frame_from_def)
  show "kind (cells h' c) = kind (cells h c)"
    using arg_cong [OF eq, of kind] by simp
  show "left (cells h' c) = left (cells h c)"
    using arg_cong [OF eq, of left] by simp
  show "right (cells h' c) = right (cells h c)"
    using arg_cong [OF eq, of right] by simp
  show "alike n (cells h' c) = alike n (cells h c)"
    using arg_cong [OF eq, of "alike n"] by (simp add: alike_def)
qed

lemma mirrors_frame:
  "mirrors d H h e a c \<Longrightarrow> frame_from c e h h' \<Longrightarrow> mirrors d H h' e a c"
proof (induction d arbitrary: a c)
  case 0
  then show ?case by simp
next
  case (Suc d)
  note top = frame_from_top [OF Suc.prems(2)]
  have kid: "mirrors d H h' e x x' \<and> parent (cells h' x') = parent (cells h x')"
    if "mirrors d H h e x x'" and "c < x'" for x x'
  proof -
    have "x' < e" using that(1) by (rule mirrors_bound)
    then have "frame_from x' e h h'" "cells h' x' = cells h x'"
      using frame_from_child [OF Suc.prems(2) that(2)] by simp_all
    then show ?thesis using Suc.IH [OF that(1)] by simp
  qed
  show ?case
    using Suc.prems(1) kid
    by (auto simp: top split: option.splits)
qed

lemma finds_frame:
  "mirrors d H h e a c \<Longrightarrow> finds d H h a c n x \<Longrightarrow> frame_from c e h h' \<Longrightarrow>
   finds d H h' a c n x"
proof (induction d arbitrary: a c)
  case 0
  then show ?case by simp
next
  case (Suc d)
  note top = frame_from_top [OF Suc.prems(3)]
  have kid: "finds d H h' y y' n x"
    if "mirrors d H h e y y'" and "finds d H h y y' n x" and "c < y'" for y y'
  proof -
    have "y' < e" using that(1) by (rule mirrors_bound)
    then have "frame_from y' e h h'"
      using frame_from_child [OF Suc.prems(3) that(3)] by simp
    then show ?thesis using Suc.IH [OF that(1,2)] by simp
  qed
  show ?case
    using Suc.prems(1,2) kid
    by (auto simp: top split: option.splits)
qed

lemma upd_simps:
  "cells (upd a f h) x = (if x = a then f (cells h a) else cells h x)"
  "next_free (upd a f h) = next_free h"
  by (simp_all add: upd_def)

lemma same_old_cell:
  assumes "same_old H h" and "m < next_free H"
  shows "kind (cells h m) = kind (cells H m)"
    and "left (cells h m) = left (cells H m)"
    and "right (cells h m) = right (cells H m)"
    and "parent (cells h m) = parent (cells H m)"
    and "cloned_target (cells h m) = cloned_target (cells H m)"
    and "operatorleft (cells h m) = operatorleft (cells H m)"
    and "const_value (cells h m) = const_value (cells H m)"
    and "ident (cells h m) = ident (cells H m)"
proof -
  have eq: "cells h m = (cells H m)\<lparr>cloned_node := cloned_node (cells h m)\<rparr>"
    using assms by (simp add: same_old_def)
  show "kind (cells h m) = kind (cells H m)" using arg_cong [OF eq, of kind] by simp
  show "left (cells h m) = left (cells H m)" using arg_cong [OF eq, of left] by simp
  show "right (cells h m) = right (cells H m)" using arg_cong [OF eq, of right] by simp
  show "parent (cells h m) = parent (cells H m)" using arg_cong [OF eq, of parent] by simp
  show "cloned_target (cells h m) = cloned_target (cells H m)"
    using arg_cong [OF eq, of cloned_target] by simp
  show "operatorleft (cells h m) = operatorleft (cells H m)"
    using arg_cong [OF eq, of operatorleft] by simp
  show "const_value (cells h m) = const_value (cells H m)"
    using arg_cong [OF eq, of const_value] by simp
  show "ident (cells h m) = ident (cells H m)" using arg_cong [OF eq, of ident] by simp
qed

lemma same_old_step:
  assumes "same_old H h" and "next_free h \<le> next_free h'"
    and "\<And>m. m < next_free H \<Longrightarrow> cells h' m = (cells h m)\<lparr>cloned_node := cloned_node (cells h' m)\<rparr>"
  shows "same_old H h'"
  unfolding same_old_def
proof (intro conjI allI impI)
  show "next_free H \<le> next_free h'" using assms(1,2) by (simp add: same_old_def)
  fix m assume m: "m < next_free H"
  have "cells h m = (cells H m)\<lparr>cloned_node := cloned_node (cells h m)\<rparr>"
    using assms(1) m by (simp add: same_old_def)
  then have "(cells h m)\<lparr>cloned_node := cloned_node (cells h' m)\<rparr> =
      (cells H m)\<lparr>cloned_node := cloned_node (cells h' m)\<rparr>"
    by (metis node.update_convs(7) node.surjective)
  then show "cells h' m = (cells H m)\<lparr>cloned_node := cloned_node (cells h' m)\<rparr>"
    using assms(3) [OF m] by simp
qed

text \<open>One child of the new node: \<open>link_clone\<close>, for either side.\<close>

lemma link_step:
  assumes setter: "\<And>r c h. setter r (Some c) h =
        upd c (\<lambda>x. x\<lparr>parent := Some r\<rparr>) (upd r (put (Some c)) h)"
    and sel_put: "\<And>v x. sel (put v x) = v"
    and put_id: "\<And>x. put (sel x) x = x"
    and put_put: "\<And>v w x. put v (put w x) = put v x"
    and ih: "\<And>l. sel (cells H a) = Some l \<Longrightarrow>
        \<exists>h' l'. rec h0 l = Inr (h', l') \<and> clone_post d H n h0 l h' l'"
    and so: "same_old H h0" and n: "n < next_free H"
    and res: "next_free H \<le> result" "result < next_free h0"
    and child: "c = sel (cells H a)"
  shows "\<exists>h2. link_clone rec setter result c h0 = Inr h2 \<and>
           link_post sel put d H n a h0 result h2"
proof (cases "sel (cells H a)")
  case None
  then show ?thesis
    using so by (simp add: child link_clone_def link_post_def put_id)
next
  case (Some l)
  from ih [OF Some] obtain h1 l' where rec: "rec h0 l = Inr (h1, l')"
    and post: "clone_post d H n h0 l h1 l'" by blast
  from post have l': "l' = next_free h0" and nf: "next_free h0 < next_free h1"
    and so1: "same_old H h1"
    and keep: "\<And>x. next_free H \<le> x \<Longrightarrow> x < next_free h0 \<Longrightarrow> cells h1 x = cells h0 x"
    and m1: "mirrors d H h1 (next_free h1) l l'"
    and tr: "if in_tree d H l n
       then (\<exists>c. cloned_node (cells h1 n) = Some c \<and> finds d H h1 l l' n c)
       else cloned_node (cells h1 n) = cloned_node (cells h0 n)"
    unfolding clone_post_def by blast+
  define h2 where "h2 = setter result (Some l') h1"
  have ne: "result \<noteq> l'" "result < l'" using res l' by simp_all
  have cell: "cells h2 x = (if x = l' then (cells h1 l')\<lparr>parent := Some result\<rparr>
      else if x = result then put (Some l') (cells h1 result) else cells h1 x)" for x
    using ne by (simp add: h2_def setter upd_simps)
  have nf2: "next_free h2 = next_free h1" by (simp add: h2_def setter upd_simps)
  have old: "cells h2 m = cells h1 m" if "m < next_free H" for m
    using that res ne by (simp add: cell)
  have so2: "same_old H h2"
    using so1 by (rule same_old_step) (simp_all add: nf2 old)
  have fr: "frame_from l' (next_free h1) h1 h2"
    using ne by (simp add: frame_from_def cell)
  have m2: "mirrors d H h2 (next_free h2) l l'"
    using mirrors_frame [OF m1 fr] by (simp add: nf2)
  have tr2: "if in_tree d H l n
       then (\<exists>c. cloned_node (cells h2 n) = Some c \<and> finds d H h2 l l' n c)
       else cloned_node (cells h2 n) = cloned_node (cells h0 n)"
    using tr finds_frame [OF m1 _ fr] by (auto simp: old [OF n])
  have r2: "cells h2 result = put (sel (cells h2 result)) (cells h0 result)"
    using ne keep [OF res] by (simp add: cell sel_put put_put)
  have "link_clone rec setter result c h0 = Inr h2"
    by (simp add: link_clone_def child Some rec h2_def)
  moreover have "link_post sel put d H n a h0 result h2"
    unfolding link_post_def
  proof (intro conjI)
    show "same_old H h2" by (rule so2)
    show "next_free h0 \<le> next_free h2" using nf by (simp add: nf2)
    show "\<forall>x. next_free H \<le> x \<and> x < next_free h0 \<and> x \<noteq> result \<longrightarrow> cells h2 x = cells h0 x"
      using keep l' by (simp add: cell)
    show "cells h2 result = put (sel (cells h2 result)) (cells h0 result)" by (rule r2)
    show "case sel (cells H a) of None \<Rightarrow> h2 = h0
      | Some l \<Rightarrow> \<exists>l'. sel (cells h2 result) = Some l' \<and> l' = next_free h0 \<and>
              parent (cells h2 l') = Some result \<and>
              mirrors d H h2 (next_free h2) l l' \<and>
              (if in_tree d H l n
               then (\<exists>c. cloned_node (cells h2 n) = Some c \<and> finds d H h2 l l' n c)
               else cloned_node (cells h2 n) = cloned_node (cells h0 n))"
    proof -
      have a: "sel (cells h2 result) = Some l'" using ne by (simp add: cell sel_put)
      have b: "parent (cells h2 l') = Some result" by (simp add: cell)
      show ?thesis using a b l' m2 tr2 unfolding Some by (auto split: if_splits)
    qed
  qed
  ultimately show ?thesis by blast
qed

lemma mirrors_same:
  assumes "mirrors d H h e a c" and "\<And>x. c \<le> x \<Longrightarrow> x < e \<Longrightarrow> cells h' x = cells h x"
  shows "mirrors d H h' e a c"
proof -
  have "c < e" using assms(1) by (rule mirrors_bound)
  then have "frame_from c e h h'" using assms(2) by (simp add: frame_from_def)
  with assms(1) show ?thesis by (rule mirrors_frame)
qed

lemma finds_same:
  assumes "mirrors d H h e a c" and "finds d H h a c n x"
    and "\<And>x. c \<le> x \<Longrightarrow> x < e \<Longrightarrow> cells h' x = cells h x"
  shows "finds d H h' a c n x"
proof -
  have "c < e" using assms(1) by (rule mirrors_bound)
  then have "frame_from c e h h'" using assms(3) by (simp add: frame_from_def)
  with assms(1,2) show ?thesis by (rule finds_frame)
qed

lemma track_step:
  assumes so: "same_old H h4" and a: "a < next_free H"
    and tgt: "cloned_target (cells H n) = Some t" "path_to_root lf h4 n = Inr t"
    and pok: "\<exists>p. path_to_root lf h4 a = Inr p"
  shows "\<exists>h5. track_clone lf a result h4 = Inr h5 \<and> next_free h5 = next_free h4 \<and>
           (\<forall>x. x \<noteq> a \<longrightarrow> cells h5 x = cells h4 x) \<and>
           cells h5 a = (cells h4 a)\<lparr>cloned_node := cloned_node (cells h5 a)\<rparr> \<and>
           (a = n \<longrightarrow> cloned_node (cells h5 a) = Some result)"
proof -
  from pok obtain p where p: "path_to_root lf h4 a = Inr p" by blast
  have ct: "cloned_target (cells h4 a) = cloned_target (cells H a)"
    using same_old_cell(5) [OF so a] .
  show ?thesis
  proof (cases "cloned_target (cells H a)")
    case None
    then have "a \<noteq> n" using tgt(1) by auto
    then show ?thesis using None ct by (simp add: track_clone_def)
  next
    case (Some u)
    show ?thesis
    proof (cases "p = u")
      case True
      then show ?thesis using Some ct p
        by (simp add: track_clone_def upd_simps)
    next
      case False
      then have "a \<noteq> n" using tgt Some p by auto
      then show ?thesis using Some ct p False
        by (simp add: track_clone_def)
    qed
  qed
qed

text \<open>
  \<open>clone\<close> returns, with enough fuel, on every tree, and leaves a copy of it and the
  clone of the tracked node in \<open>cloned_node\<close>.
\<close>

lemma clone_main:
  assumes n: "n < next_free H"
    and tgt: "cloned_target (cells H n) = Some t"
      "\<And>g. same_old H g \<Longrightarrow> path_to_root lf g n = Inr t"
  shows "wf_tree d H p a \<Longrightarrow> d \<le> f \<Longrightarrow> same_old H h \<Longrightarrow>
     (\<And>m g. in_tree d H a m \<Longrightarrow> same_old H g \<Longrightarrow> \<exists>q. path_to_root lf g m = Inr q) \<Longrightarrow>
     \<exists>h' a'. clone lf f h a = Inr (h', a') \<and> clone_post d H n h a h' a'"
proof (induction d arbitrary: f h a p)
  case 0
  then show ?case by simp
next
  case (Suc d)
  note wf = Suc.prems(1) and so = Suc.prems(3) and pok = Suc.prems(4)
  from Suc.prems(2) obtain f' where f: "f = Suc f'" and le: "d \<le> f'" by (cases f) auto
  have a: "a < next_free H" using wf by simp
  have wl: "wf_tree d H (Some a) l" if "left (cells H a) = Some l" for l
    using wf that by simp
  have wr: "wf_tree d H (Some a) r" if "right (cells H a) = Some r" for r
    using wf that by simp
  define result where "result = next_free h"
  define k0 where "k0 = (blank (kind (cells H a)))\<lparr>operatorleft := operatorleft (cells H a)\<rparr>"
  define h0 where "h0 = h\<lparr>cells := (cells h)(result := k0), next_free := Suc result\<rparr>"
  have nl: "new_like h a = (h0, result)"
    using same_old_cell(1,6) [OF so a]
    by (simp add: new_like_def h0_def k0_def result_def Let_def)
  have res: "next_free H \<le> result" "result < next_free h0"
    using so by (simp_all add: same_old_def result_def h0_def)
  have nf0: "next_free h0 = Suc result" by (simp add: h0_def)
  have c0: "cells h0 x = (if x = result then k0 else cells h x)" for x by (simp add: h0_def)
  have so0: "same_old H h0"
    using so
  proof (rule same_old_step)
    show "next_free h \<le> next_free h0" by (simp add: nf0 result_def)
    show "cells h0 m = (cells h m)\<lparr>cloned_node := cloned_node (cells h0 m)\<rparr>"
      if "m < next_free H" for m using that res by (simp add: c0)
  qed
  have an: "a \<noteq> result" "n \<noteq> result" using a n res by simp_all
  have "\<exists>h2. link_clone (clone lf f') set_left result (left (cells h0 a)) h0 = Inr h2 \<and>
          link_post left (\<lambda>v x. x\<lparr>left := v\<rparr>) d H n a h0 result h2"
  proof (rule link_step)
    show "set_left r (Some c) g =
        upd c (\<lambda>x. x\<lparr>parent := Some r\<rparr>) (upd r (\<lambda>x. x\<lparr>left := Some c\<rparr>) g)" for r c g
      by (simp add: set_left_def)
    show "left (x\<lparr>left := v\<rparr>) = v" for v and x :: node by simp
    show "x\<lparr>left := left x\<rparr> = x" for x :: node by simp
    show "x\<lparr>left := w, left := v\<rparr> = x\<lparr>left := v\<rparr>" for v w and x :: node by simp
    show "\<exists>h' l'. clone lf f' h0 l = Inr (h', l') \<and> clone_post d H n h0 l h' l'"
      if "left (cells H a) = Some l" for l
    proof (rule Suc.IH [OF wl [OF that] le so0])
      fix m g assume "in_tree d H l m" "same_old H g"
      then show "\<exists>q. path_to_root lf g m = Inr q" using pok [of m g] that by simp
    qed
    show "same_old H h0" by (rule so0)
    show "n < next_free H" by (rule n)
    show "next_free H \<le> result" "result < next_free h0" by (rule res)+
    show "left (cells h0 a) = left (cells H a)" by (rule same_old_cell(2) [OF so0 a])
  qed
  then obtain h2 where L: "link_clone (clone lf f') set_left result (left (cells h0 a)) h0 = Inr h2"
    and lp: "link_post left (\<lambda>v x. x\<lparr>left := v\<rparr>) d H n a h0 result h2" by blast
  from lp have so2: "same_old H h2" and nf2: "next_free h0 \<le> next_free h2"
    and keep2: "\<And>x. next_free H \<le> x \<Longrightarrow> x < next_free h0 \<Longrightarrow> x \<noteq> result \<Longrightarrow>
        cells h2 x = cells h0 x"
    and r2: "cells h2 result = (cells h0 result)\<lparr>left := left (cells h2 result)\<rparr>"
    and lc: "case left (cells H a) of None \<Rightarrow> h2 = h0
       | Some l \<Rightarrow> \<exists>l'. left (cells h2 result) = Some l' \<and> l' = next_free h0 \<and>
              parent (cells h2 l') = Some result \<and>
              mirrors d H h2 (next_free h2) l l' \<and>
              (if in_tree d H l n
               then (\<exists>c. cloned_node (cells h2 n) = Some c \<and> finds d H h2 l l' n c)
               else cloned_node (cells h2 n) = cloned_node (cells h0 n))"
    unfolding link_post_def by blast+
  have res2: "result < next_free h2" using res nf2 by simp
  have "\<exists>h4. link_clone (clone lf f') set_right result (right (cells h2 a)) h2 = Inr h4 \<and>
          link_post right (\<lambda>v x. x\<lparr>right := v\<rparr>) d H n a h2 result h4"
  proof (rule link_step)
    show "set_right r (Some c) g =
        upd c (\<lambda>x. x\<lparr>parent := Some r\<rparr>) (upd r (\<lambda>x. x\<lparr>right := Some c\<rparr>) g)" for r c g
      by (simp add: set_right_def)
    show "right (x\<lparr>right := v\<rparr>) = v" for v and x :: node by simp
    show "x\<lparr>right := right x\<rparr> = x" for x :: node by simp
    show "x\<lparr>right := w, right := v\<rparr> = x\<lparr>right := v\<rparr>" for v w and x :: node by simp
    show "\<exists>h' l'. clone lf f' h2 l = Inr (h', l') \<and> clone_post d H n h2 l h' l'"
      if "right (cells H a) = Some l" for l
    proof (rule Suc.IH [OF wr [OF that] le so2])
      fix m g assume "in_tree d H l m" "same_old H g"
      then show "\<exists>q. path_to_root lf g m = Inr q" using pok [of m g] that by simp
    qed
    show "same_old H h2" by (rule so2)
    show "n < next_free H" by (rule n)
    show "next_free H \<le> result" "result < next_free h2" by (rule res(1), rule res2)
    show "right (cells h2 a) = right (cells H a)" by (rule same_old_cell(3) [OF so2 a])
  qed
  then obtain h4 where R: "link_clone (clone lf f') set_right result (right (cells h2 a)) h2 = Inr h4"
    and rp: "link_post right (\<lambda>v x. x\<lparr>right := v\<rparr>) d H n a h2 result h4" by blast
  from rp have so4: "same_old H h4" and nf4: "next_free h2 \<le> next_free h4"
    and keep4: "\<And>x. next_free H \<le> x \<Longrightarrow> x < next_free h2 \<Longrightarrow> x \<noteq> result \<Longrightarrow>
        cells h4 x = cells h2 x"
    and r4: "cells h4 result = (cells h2 result)\<lparr>right := right (cells h4 result)\<rparr>"
    and rc: "case right (cells H a) of None \<Rightarrow> h4 = h2
       | Some l \<Rightarrow> \<exists>l'. right (cells h4 result) = Some l' \<and> l' = next_free h2 \<and>
              parent (cells h4 l') = Some result \<and>
              mirrors d H h4 (next_free h4) l l' \<and>
              (if in_tree d H l n
               then (\<exists>c. cloned_node (cells h4 n) = Some c \<and> finds d H h4 l l' n c)
               else cloned_node (cells h4 n) = cloned_node (cells h2 n))"
    unfolding link_post_def by blast+
  have "in_tree (Suc d) H a a" by simp
  from pok [OF this so4] have "\<exists>q. path_to_root lf h4 a = Inr q" .
  from track_step [OF so4 a tgt(1) tgt(2) [OF so4] this, of result]
  obtain h5 where T: "track_clone lf a result h4 = Inr h5"
    and nf5: "next_free h5 = next_free h4"
    and keep5: "\<And>x. x \<noteq> a \<Longrightarrow> cells h5 x = cells h4 x"
    and a5: "cells h5 a = (cells h4 a)\<lparr>cloned_node := cloned_node (cells h5 a)\<rparr>"
    and tr5: "a = n \<Longrightarrow> cloned_node (cells h5 a) = Some result" by blast
  have so5: "same_old H h5"
    using so4
  proof (rule same_old_step)
    show "next_free h4 \<le> next_free h5" by (simp add: nf5)
    show "cells h5 m = (cells h4 m)\<lparr>cloned_node := cloned_node (cells h5 m)\<rparr>"
      if "m < next_free H" for m
      using a5 keep5 [of m] by (cases "m = a") simp_all
  qed
  define pay where "pay x =
     (if kind (cells H a) = ConstantExpression then x\<lparr>const_value := const_value (cells H a)\<rparr>
      else if kind (cells H a) = VariableExpression then x\<lparr>ident := ident (cells H a)\<rparr>
      else x)" for x :: node
  define h' where "h' = copy_payload a result h5"
  have ch': "cells h' x = (if x = result then pay (cells h5 result) else cells h5 x)" for x
    using same_old_cell(1,7,8) [OF so5 a]
    by (simp add: h'_def copy_payload_def pay_def upd_simps)
  have nf': "next_free h' = next_free h4"
    by (simp add: h'_def copy_payload_def upd_simps nf5)
  have C: "clone lf f h a = Inr (h', result)"
    by (simp add: f nl L R T bind_err_def h'_def)
  have r2': "cells h2 result = k0\<lparr>left := left (cells h2 result)\<rparr>"
    using r2 by (simp add: c0)
  have top4: "cells h4 result =
      k0\<lparr>left := left (cells h2 result), right := right (cells h4 result)\<rparr>"
    using trans [OF r4 arg_cong [OF r2', of "\<lambda>x. x\<lparr>right := right (cells h4 result)\<rparr>"]] .
  have "cells h' result = pay (cells h4 result)"
    using keep5 [of result] an by (simp add: ch')
  from trans [OF this arg_cong [OF top4, of pay]]
  have top: "cells h' result =
      pay (k0\<lparr>left := left (cells h2 result), right := right (cells h4 result)\<rparr>)" .
  have tl: "left (cells h' result) = left (cells h2 result)"
    and tr: "right (cells h' result) = right (cells h4 result)"
    and tp: "parent (cells h' result) = None"
    and tal: "alike (cells H a) (cells h' result)"
    by (simp_all add: top pay_def k0_def blank_def alike_def)
  have keep': "cells h' x = cells h4 x" if "result < x" for x
    using that a res(1) keep5 [of x] by (simp add: ch')
  have keep2': "cells h' x = cells h2 x" if "result < x" "x < next_free h2" for x
    using that keep' [of x] keep4 [of x] res(1) by simp
  have old': "cells h' x = cells h5 x" if "x < next_free H" for x
    using that res(1) by (simp add: ch')
  have bound: "result < next_free h'" using res2 nf4 by (simp add: nf')
  have mleft: "case left (cells H a) of
       None \<Rightarrow> left (cells h' result) = None
     | Some l \<Rightarrow>
         (case left (cells h' result) of
            None \<Rightarrow> False
          | Some l' \<Rightarrow> result < l' \<and> parent (cells h' l') = Some result \<and>
              mirrors d H h' (next_free h') l l')"
  proof (cases "left (cells H a)")
    case None
    with lc have "h2 = h0" by simp
    then show ?thesis using None by (simp add: tl c0 k0_def blank_def)
  next
    case (Some l)
    with lc obtain l' where l': "left (cells h2 result) = Some l'" "l' = next_free h0"
      "parent (cells h2 l') = Some result" "mirrors d H h2 (next_free h2) l l'" by auto
    have lt: "result < l'" using l'(2) by (simp add: nf0)
    have b: "l' < next_free h2" using l'(4) by (rule mirrors_bound)
    have "mirrors d H h' (next_free h2) l l'"
      using l'(4) by (rule mirrors_same) (use lt keep2' in simp)
    then have "mirrors d H h' (next_free h') l l'"
      by (rule mirrors_mono) (simp add: nf' nf4)
    then show ?thesis using Some l' lt keep2' [OF lt b] by (simp add: tl)
  qed
  have mright: "case right (cells H a) of
       None \<Rightarrow> right (cells h' result) = None
     | Some r \<Rightarrow>
         (case right (cells h' result) of
            None \<Rightarrow> False
          | Some r' \<Rightarrow> result < r' \<and> parent (cells h' r') = Some result \<and>
              mirrors d H h' (next_free h') r r')"
  proof (cases "right (cells H a)")
    case None
    with rc have "h4 = h2" by simp
    then show ?thesis using None arg_cong [OF r2', of right]
      by (simp add: tr k0_def blank_def)
  next
    case (Some r)
    with rc obtain r' where r': "right (cells h4 result) = Some r'" "r' = next_free h2"
      "parent (cells h4 r') = Some result" "mirrors d H h4 (next_free h4) r r'" by auto
    have lt: "result < r'" using r'(2) res2 by simp
    have "mirrors d H h' (next_free h4) r r'"
      using r'(4) by (rule mirrors_same) (use lt keep' in simp)
    then show ?thesis using Some r' lt keep' [OF lt] by (simp add: tr nf')
  qed
  have M: "mirrors (Suc d) H h' (next_free h') a result"
    using mleft mright tal bound by simp
  have fr: "\<exists>c. cloned_node (cells h4 n) = Some c \<and> finds (Suc d) H h' a result n c"
    if "right (cells H a) = Some r" "in_tree d H r n" for r
  proof -
    from rc that obtain r' c where r': "right (cells h4 result) = Some r'" "r' = next_free h2"
      "mirrors d H h4 (next_free h4) r r'" "cloned_node (cells h4 n) = Some c"
      "finds d H h4 r r' n c" by auto
    have lt: "result < r'" using r'(2) res2 by simp
    have "finds d H h' r r' n c"
      using r'(3,5) by (rule finds_same) (use lt keep' in simp)
    then show ?thesis using that(1) r'(1,4) by (simp add: tr)
  qed
  have fl: "\<exists>c. cloned_node (cells h4 n) = Some c \<and> finds (Suc d) H h' a result n c"
    if "left (cells H a) = Some l" "in_tree d H l n"
      and nr: "\<not> (case right (cells H a) of None \<Rightarrow> False | Some r \<Rightarrow> in_tree d H r n)" for l
  proof -
    from lc that(1,2) obtain l' c where l': "left (cells h2 result) = Some l'"
      "l' = next_free h0" "mirrors d H h2 (next_free h2) l l'"
      "cloned_node (cells h2 n) = Some c" "finds d H h2 l l' n c" by auto
    have lt: "result < l'" using l'(2) by (simp add: nf0)
    have "cloned_node (cells h4 n) = cloned_node (cells h2 n)"
      using rc nr by (auto split: option.splits)
    moreover have "finds d H h' l l' n c"
      using l'(3,5) by (rule finds_same) (use lt keep2' in simp)
    ultimately show ?thesis using that(1) l'(1,4) by (simp add: tl)
  qed
  have fnone: "cloned_node (cells h4 n) = cloned_node (cells h n)"
    if "\<not> (case left (cells H a) of None \<Rightarrow> False | Some l \<Rightarrow> in_tree d H l n)"
      and "\<not> (case right (cells H a) of None \<Rightarrow> False | Some r \<Rightarrow> in_tree d H r n)"
  proof -
    have "cloned_node (cells h4 n) = cloned_node (cells h2 n)"
      using rc that(2) by (auto split: option.splits)
    moreover have "cloned_node (cells h2 n) = cloned_node (cells h0 n)"
      using lc that(1) by (auto split: option.splits)
    ultimately show ?thesis using an by (simp add: c0)
  qed
  have TR: "if in_tree (Suc d) H a n
       then (\<exists>c. cloned_node (cells h' n) = Some c \<and> finds (Suc d) H h' a result n c)
       else cloned_node (cells h' n) = cloned_node (cells h n)"
  proof (cases "a = n")
    case True
    then show ?thesis using tr5 old' [OF n] by simp
  next
    case False
    then have eq: "cloned_node (cells h' n) = cloned_node (cells h4 n)"
      using old' [OF n] keep5 [of n] by simp
    show ?thesis
    proof (cases "case right (cells H a) of None \<Rightarrow> False | Some r \<Rightarrow> in_tree d H r n")
      case True
      then obtain r where "right (cells H a) = Some r" "in_tree d H r n"
        by (auto split: option.splits)
      from fr [OF this] show ?thesis using True unfolding eq by simp
    next
      case nr: False
      show ?thesis
      proof (cases "case left (cells H a) of None \<Rightarrow> False | Some l \<Rightarrow> in_tree d H l n")
        case True
        then obtain l where "left (cells H a) = Some l" "in_tree d H l n"
          by (auto split: option.splits)
        from fl [OF this nr] show ?thesis using True unfolding eq by simp
      next
        case False
        from fnone [OF False nr] show ?thesis using False nr \<open>a \<noteq> n\<close> unfolding eq by simp
      qed
    qed
  qed
  have so': "same_old H h'"
    using so5
  proof (rule same_old_step)
    show "next_free h5 \<le> next_free h'" by (simp add: nf' nf5)
    show "cells h' m = (cells h5 m)\<lparr>cloned_node := cloned_node (cells h' m)\<rparr>"
      if "m < next_free H" for m using old' [OF that] by simp
  qed
  have K: "cells h' x = cells h x" if "next_free H \<le> x" "x < next_free h" for x
  proof -
    have x: "x \<noteq> result" "x \<noteq> a" "x < next_free h0" "x < next_free h2"
      using that a res2 by (simp_all add: result_def nf0)
    have "cells h' x = cells h5 x" using x by (simp add: ch')
    also have "\<dots> = cells h4 x" using x by (simp add: keep5)
    also have "\<dots> = cells h2 x" using x that by (simp add: keep4)
    also have "\<dots> = cells h0 x" using x that by (simp add: keep2)
    also have "\<dots> = cells h x" using x by (simp add: c0)
    finally show ?thesis .
  qed
  have "clone_post (Suc d) H n h a h' result"
    unfolding clone_post_def
  proof (intro conjI allI impI)
    show "result = next_free h" by (simp add: result_def)
    show "next_free h < next_free h'" using bound by (simp add: result_def)
    show "same_old H h'" by (rule so')
    show "cells h' x = cells h x" if "next_free H \<le> x \<and> x < next_free h" for x
      using that K by simp
    show "parent (cells h' result) = None" by (rule tp)
    show "mirrors (Suc d) H h' (next_free h') a result" by (rule M)
    show "if in_tree (Suc d) H a n
       then (\<exists>c. cloned_node (cells h' n) = Some c \<and> finds (Suc d) H h' a result n c)
       else cloned_node (cells h' n) = cloned_node (cells h n)" by (rule TR)
  qed
  with C show ?case by blast
qed

text \<open>The root and the path to it, from a node of the tree.\<close>

lemma get_root_mono: "get_root k h a = Inr r \<Longrightarrow> get_root (k + j) h a = Inr r"
  by (induction k arbitrary: a) (auto split: option.splits)

lemma path_points_mono: "path_points k h a = Inr ps \<Longrightarrow> path_points (k + j) h a = Inr ps"
  by (induction k arbitrary: a ps) (auto split: option.splits sum.splits)

lemma wf_tree_parent: "wf_tree d h p a \<Longrightarrow> parent (cells h a) = p \<and> a < next_free h"
  by (cases d) simp_all

lemma in_tree_mono: "in_tree d h a n \<Longrightarrow> d \<le> d' \<Longrightarrow> in_tree d' h a n"
proof (induction d arbitrary: a d')
  case 0
  then show ?case by simp
next
  case (Suc d)
  then obtain e where e: "d' = Suc e" "d \<le> e" by (cases d') auto
  show ?case using Suc.prems(1) Suc.IH [OF _ e(2)] unfolding e(1)
    by (auto split: option.splits)
qed

lemma in_tree_bound: "wf_tree d h p a \<Longrightarrow> in_tree d h a n \<Longrightarrow> n < next_free h"
  by (induction d arbitrary: a p) (auto split: option.splits)

lemma get_root_in_tree:
  "wf_tree d h p a \<Longrightarrow> in_tree d h a n \<Longrightarrow> get_root k h a = Inr r \<Longrightarrow>
   get_root (k + d) h n = Inr r"
proof (induction d arbitrary: a p k)
  case 0
  then show ?case by simp
next
  case (Suc d)
  have kid: "get_root (k + Suc d) h n = Inr r"
    if "wf_tree d h (Some a) c" "in_tree d h c n" for c
  proof -
    have "parent (cells h c) = Some a" using wf_tree_parent [OF that(1)] by simp
    then have "get_root (Suc k) h c = Inr r" using Suc.prems(3) by simp
    from Suc.IH [OF that this] show ?thesis by simp
  qed
  show ?case
  proof (cases "a = n")
    case True
    show ?thesis using Suc.prems(3) unfolding True by (rule get_root_mono)
  next
    case False
    then show ?thesis using Suc.prems(1,2) kid by (auto split: option.splits)
  qed
qed

lemma path_points_in_tree:
  "wf_tree d h p a \<Longrightarrow> in_tree d h a n \<Longrightarrow> path_points k h a = Inr ps \<Longrightarrow>
   \<exists>qs. path_points (k + d) h n = Inr qs"
proof (induction d arbitrary: a p k ps)
  case 0
  then show ?case by simp
next
  case (Suc d)
  have kid: "\<exists>qs. path_points (k + Suc d) h n = Inr qs"
    if "wf_tree d h (Some a) c" "in_tree d h c n" for c
  proof -
    have "parent (cells h c) = Some a" using wf_tree_parent [OF that(1)] by simp
    then have "path_points (Suc k) h c = Inr (class_name (kind (cells h c)) # ps)"
      using Suc.prems(3) by simp
    from Suc.IH [OF that this] show ?thesis by simp
  qed
  show ?case
  proof (cases "a = n")
    case True
    show ?thesis using path_points_mono [OF Suc.prems(3)] unfolding True by blast
  next
    case False
    then show ?thesis using Suc.prems(1,2) kid by (auto split: option.splits)
  qed
qed

lemma path_points_same:
  assumes so: "same_old H h"
  shows "wf_tree d H p a \<Longrightarrow> in_tree d H a n \<Longrightarrow>
     (\<And>k. path_points k h a = path_points k H a) \<Longrightarrow>
     path_points k h n = path_points k H n"
proof (induction d arbitrary: a p k)
  case 0
  then show ?case by simp
next
  case (Suc d)
  have kid: "path_points k h n = path_points k H n"
    if "wf_tree d H (Some a) c" "in_tree d H c n" for c
  proof -
    have c: "parent (cells H c) = Some a" "c < next_free H"
      using wf_tree_parent [OF that(1)] by simp_all
    have "path_points j h c = path_points j H c" for j
      using same_old_cell(1,4) [OF so c(2)] c(1) Suc.prems(3)
      by (cases j) (simp_all split: sum.splits)
    from Suc.IH [OF that this] show ?thesis .
  qed
  show ?case
  proof (cases "a = n")
    case True
    then show ?thesis using Suc.prems(3) by simp
  next
    case False
    then show ?thesis using Suc.prems(1,2) kid by (auto split: option.splits)
  qed
qed

lemma path_points_root:
  assumes "same_old H h" and "wf_tree d H None r" and "in_tree d H r n"
  shows "path_points k h n = path_points k H n"
  using assms
proof (rule path_points_same)
  have r: "parent (cells H r) = None" "r < next_free H"
    using wf_tree_parent [OF assms(2)] by simp_all
  show "path_points j h r = path_points j H r" for j
    using same_old_cell(1,4) [OF assms(1) r(2)] r(1) by (cases j) simp_all
qed

lemma same_shape_cell:
  assumes "same_shape h h'"
  shows "kind (cells h' m) = kind (cells h m)"
    and "left (cells h' m) = left (cells h m)"
    and "right (cells h' m) = right (cells h m)"
    and "parent (cells h' m) = parent (cells h m)"
    and "rendering_change (cells h' m) = rendering_change (cells h m)"
    and "changed (cells h' m) = changed (cells h m)"
    and "operatorleft (cells h' m) = operatorleft (cells h m)"
    and "const_value (cells h' m) = const_value (cells h m)"
    and "ident (cells h' m) = ident (cells h m)"
proof -
  have eq: "cells h' m = (cells h m)\<lparr>cloned_node := cloned_node (cells h' m),
      cloned_target := cloned_target (cells h' m)\<rparr>"
    using assms by (simp add: same_shape_def)
  show "kind (cells h' m) = kind (cells h m)" using arg_cong [OF eq, of kind] by simp
  show "left (cells h' m) = left (cells h m)" using arg_cong [OF eq, of left] by simp
  show "right (cells h' m) = right (cells h m)" using arg_cong [OF eq, of right] by simp
  show "parent (cells h' m) = parent (cells h m)" using arg_cong [OF eq, of parent] by simp
  show "rendering_change (cells h' m) = rendering_change (cells h m)"
    using arg_cong [OF eq, of rendering_change] by simp
  show "changed (cells h' m) = changed (cells h m)" using arg_cong [OF eq, of changed] by simp
  show "operatorleft (cells h' m) = operatorleft (cells h m)"
    using arg_cong [OF eq, of operatorleft] by simp
  show "const_value (cells h' m) = const_value (cells h m)"
    using arg_cong [OF eq, of const_value] by simp
  show "ident (cells h' m) = ident (cells h m)" using arg_cong [OF eq, of ident] by simp
qed

lemma wf_tree_shape:
  assumes s: "same_shape h h'"
  shows "wf_tree d h' p a = wf_tree d h p a"
proof -
  note c = same_shape_cell [OF s]
  have n: "next_free h' = next_free h" using s by (simp add: same_shape_def)
  show ?thesis
    by (induction d arbitrary: p a) (simp_all add: c n split: option.splits)
qed

lemma in_tree_shape:
  assumes s: "same_shape h h'"
  shows "in_tree d h' a n = in_tree d h a n"
proof -
  note c = same_shape_cell [OF s]
  show ?thesis
    by (induction d arbitrary: a) (simp_all add: c split: option.splits)
qed

lemma mirrors_shape:
  assumes s: "same_shape H H'"
  shows "mirrors d H' h e a c = mirrors d H h e a c"
proof -
  note k = same_shape_cell [OF s]
  show ?thesis
    by (induction d arbitrary: a c) (simp_all add: k alike_def split: option.splits)
qed

lemma finds_shape:
  assumes s: "same_shape H H'"
  shows "finds d H' h a c n x = finds d H h a c n x"
proof -
  note k = same_shape_cell [OF s]
  show ?thesis
    by (induction d arbitrary: a c) (simp_all add: k split: option.splits)
qed

lemma path_points_shape:
  assumes s: "same_shape h h'"
  shows "path_points k h' a = path_points k h a"
proof -
  note c = same_shape_cell [OF s]
  show ?thesis
    by (induction k arbitrary: a) (simp_all add: c split: option.splits sum.splits)
qed

lemma get_root_shape:
  assumes s: "same_shape h h'"
  shows "get_root k h' a = get_root k h a"
proof -
  note c = same_shape_cell [OF s]
  show ?thesis
    by (induction k arbitrary: a) (simp_all add: c split: option.splits)
qed

lemma plain_mono: "plain d h a \<Longrightarrow> d' \<le> d \<Longrightarrow> plain d' h a"
proof (induction d' arbitrary: a d)
  case 0
  then show ?case by simp
next
  case (Suc d')
  then obtain e where e: "d = Suc e" "d' \<le> e" by (cases d) auto
  show ?case using Suc.prems(1) Suc.IH [OF _ e(2)] unfolding e(1)
    by (auto split: option.splits)
qed

text \<open>The copy of a node renders as the node.\<close>

lemma finds_sub:
  "wf_tree d H p a \<Longrightarrow> mirrors d H h e a a' \<Longrightarrow> finds d H h a a' n c \<Longrightarrow>
   parent_kind h a' = parent_kind H a \<Longrightarrow>
   \<exists>d' p'. d' \<le> d \<and> wf_tree d' H p' n \<and> mirrors d' H h e n c \<and>
     parent_kind h c = parent_kind H n"
proof (induction d arbitrary: a a' p)
  case 0
  then show ?case by simp
next
  case (Suc d)
  have kid: "\<exists>d' p'. d' \<le> Suc d \<and> wf_tree d' H p' n \<and> mirrors d' H h e n c \<and>
      parent_kind h c = parent_kind H n"
    if "wf_tree d H (Some a) x" "mirrors d H h e x x'" "finds d H h x x' n c"
      "parent (cells h x') = Some a'" for x x'
  proof -
    have "parent (cells H x) = Some a" using wf_tree_parent [OF that(1)] by simp
    moreover have "kind (cells h a') = kind (cells H a)"
      using Suc.prems(2) by (simp add: alike_def)
    ultimately have "parent_kind h x' = parent_kind H x"
      using that(4) by (simp add: parent_kind_def)
    from Suc.IH [OF that(1,2,3) this] obtain d' p' where "d' \<le> d" "wf_tree d' H p' n"
      "mirrors d' H h e n c" "parent_kind h c = parent_kind H n" by blast
    then show ?thesis using le_SucI by blast
  qed
  show ?case
  proof (cases "a = n \<and> a' = c")
    case True
    then show ?thesis using Suc.prems by blast
  next
    case False
    with Suc.prems(3) consider
      (l) l l' where "left (cells H a) = Some l" "left (cells h a') = Some l'"
        "finds d H h l l' n c"
    | (r) r r' where "right (cells H a) = Some r" "right (cells h a') = Some r'"
        "finds d H h r r' n c"
      by (auto split: option.splits)
    then show ?thesis
    proof cases
      case l
      have "wf_tree d H (Some a) l" using Suc.prems(1) l(1) by simp
      moreover have "mirrors d H h e l l'" "parent (cells h l') = Some a'"
        using Suc.prems(2) l(1,2) by simp_all
      ultimately show ?thesis using kid l(3) by blast
    next
      case r
      have "wf_tree d H (Some a) r" using Suc.prems(1) r(1) by simp
      moreover have "mirrors d H h e r r'" "parent (cells h r') = Some a'"
        using Suc.prems(2) r(1,2) by simp_all
      ultimately show ?thesis using kid r(3) by blast
    qed
  qed
qed

lemma mirrors_render_sim:
  "render_sim (\<lambda>x x'. \<exists>d p. wf_tree d H p x \<and> mirrors d H h e x x' \<and>
      parent_kind h x' = parent_kind H x \<and> plain d H x) colr H h"
  unfolding render_sim_def
proof (intro allI impI)
  fix x x'
  let ?R = "\<lambda>x x'. \<exists>d p. wf_tree d H p x \<and> mirrors d H h e x x' \<and>
      parent_kind h x' = parent_kind H x \<and> plain d H x"
  assume "?R x x'"
  then obtain d p where w: "wf_tree d H p x" and m: "mirrors d H h e x x'"
    and pk: "parent_kind h x' = parent_kind H x" and pl: "plain d H x" by blast
  obtain d0 where d: "d = Suc d0" using m by (cases d) auto
  have al: "alike (cells H x) (cells h x')" using m unfolding d by simp
  have rc: "rendering_change (cells H x) \<noteq> Some True" using pl unfolding d by simp
  have wc: "\<forall>t. with_color colr (cells h x') t = with_color colr (cells H x) t"
    using al rc by (simp add: with_color_def alike_def)
  have kid: "?R y y'"
    if "wf_tree d0 H (Some x) y" "mirrors d0 H h e y y'" "parent (cells h y') = Some x'"
      "plain d0 H y" for y y'
  proof -
    have "parent (cells H y) = Some x" using wf_tree_parent [OF that(1)] by simp
    then have "parent_kind h y' = parent_kind H y"
      using that(3) al by (simp add: parent_kind_def alike_def)
    then show ?thesis using that(1,2,4) by blast
  qed
  have L: "rel_option ?R (left (cells H x)) (left (cells h x'))"
  proof (cases "left (cells H x)")
    case None
    then show ?thesis using m unfolding d by simp
  next
    case (Some l)
    then obtain l' where l': "left (cells h x') = Some l'" "mirrors d0 H h e l l'"
      "parent (cells h l') = Some x'"
      using m unfolding d by (auto split: option.splits)
    have "wf_tree d0 H (Some x) l" "plain d0 H l"
      using w pl Some unfolding d by simp_all
    from kid [OF this(1) l'(2,3) this(2)] show ?thesis
      unfolding Some l'(1) by simp
  qed
  have R: "rel_option ?R (right (cells H x)) (right (cells h x'))"
  proof (cases "right (cells H x)")
    case None
    then show ?thesis using m unfolding d by simp
  next
    case (Some r)
    then obtain r' where r': "right (cells h x') = Some r'" "mirrors d0 H h e r r'"
      "parent (cells h r') = Some x'"
      using m unfolding d by (auto split: option.splits)
    have "wf_tree d0 H (Some x) r" "plain d0 H r"
      using w pl Some unfolding d by simp_all
    from kid [OF this(1) r'(2,3) this(2)] show ?thesis
      unfolding Some r'(1) by simp
  qed
  have P: "map_option (\<lambda>p. kind (cells h p)) (parent (cells h x')) =
      map_option (\<lambda>p. kind (cells H p)) (parent (cells H x))"
    using pk by (simp add: parent_kind_def)
  show "kind (cells h x') = kind (cells H x) \<and>
        (kind (cells H x) = ConstantExpression \<longrightarrow>
           const_value (cells h x') = const_value (cells H x)) \<and>
        (kind (cells H x) = VariableExpression \<longrightarrow>
           ident (cells h x') = ident (cells H x)) \<and>
        operatorleft (cells h x') = operatorleft (cells H x) \<and>
        (\<forall>t. with_color colr (cells h x') t = with_color colr (cells H x) t) \<and>
        rel_option ?R (left (cells H x)) (left (cells h x')) \<and>
        rel_option ?R (right (cells H x)) (right (cells h x')) \<and>
        map_option (\<lambda>p. kind (cells h p)) (parent (cells h x')) =
          map_option (\<lambda>p. kind (cells H p)) (parent (cells H x))"
    using al wc L R P by (simp add: alike_def)
qed

text \<open>
  C6. In a tree with root \<open>r\<close> (of height at most \<open>d\<close>, the fuel being larger),
  \<open>clone_from_root\<close> of a node \<open>n\<close> of the tree returns: it does not raise, and
  what it returns is a node \<open>c\<close> of new nodes that are a full clone of the tree, at the
  place in the clone that \<open>n\<close> has in the tree. If no node at or below \<open>n\<close> is being
  rendered as a change, \<open>c\<close> renders as \<open>n\<close> does.
\<close>

theorem C6_clone_from_root:
  assumes wf: "wf_tree d h None r" and it: "in_tree d h r n" and fuel: "d < fuel"
    and pl: "plain d h n"
  shows "\<exists>hf c r'. clone_from_root fuel h n None = Inr (hf, c) \<and>
           next_free h \<le> r' \<and> mirrors d h hf (next_free hf) r r' \<and>
           finds d h hf r r' n c \<and>
           (\<forall>g. to_text fmt colr g hf c = to_text fmt colr g h n)"
proof -
  define h1 where "h1 = upd n (\<lambda>x. x\<lparr>cloned_node := None\<rparr>) h"
  have s1: "same_shape h h1" by (simp add: same_shape_def h1_def upd_simps)
  have r0: "parent (cells h r) = None" "r < next_free h"
    using wf_tree_parent [OF wf] by simp_all
  have root_path: "path_points (Suc 0) h r = Inr [class_name (kind (cells h r))]"
    using r0 by simp
  have paths: "\<exists>qs. path_points fuel h m = Inr qs" if "in_tree d h r m" for m
  proof -
    from path_points_in_tree [OF wf that root_path]
    obtain qs where "path_points (Suc 0 + d) h m = Inr qs" by blast
    from path_points_mono [OF this, of "fuel - Suc d"] show ?thesis using fuel by simp
  qed
  from paths [OF it] obtain qs where pp: "path_points fuel h n = Inr qs" by blast
  define target where "target = join_dot qs"
  have p1: "path_to_root fuel h1 n = Inr target"
    by (simp add: path_to_root_def path_points_shape [OF s1] pp target_def)
  define h2 where "h2 = upd n (\<lambda>x. x\<lparr>cloned_target := Some target\<rparr>) h1"
  have s2: "same_shape h h2" by (simp add: same_shape_def h1_def h2_def upd_simps)
  have wf2: "wf_tree d h2 None r" using wf by (simp add: wf_tree_shape [OF s2])
  have it2: "in_tree d h2 r n" using it by (simp add: in_tree_shape [OF s2])
  have n2: "n < next_free h2" using in_tree_bound [OF wf2 it2] .
  have nf2: "next_free h2 = next_free h" using s2 by (simp add: same_shape_def)
  have "get_root (Suc 0) h r = Inr r" using r0 by simp
  from get_root_mono [OF get_root_in_tree [OF wf it this], of "fuel - Suc d"]
  have "get_root fuel h n = Inr r" using fuel by simp
  then have gr: "get_root fuel h2 n = Inr r" by (simp add: get_root_shape [OF s2])
  have so2: "same_old h2 h2" by (simp add: same_old_def)
  have tgt1: "cloned_target (cells h2 n) = Some target" by (simp add: h2_def upd_simps)
  have pr: "path_points fuel g m = path_points fuel h m"
    if "same_old h2 g" "in_tree d h2 r m" for g m
    using path_points_root [OF that(1) wf2 that(2)] by (simp add: path_points_shape [OF s2])
  have tgt2: "path_to_root fuel g n = Inr target" if "same_old h2 g" for g
    by (simp add: path_to_root_def pr [OF that it2] pp target_def)
  have pok: "\<exists>q. path_to_root fuel g m = Inr q" if "in_tree d h2 r m" "same_old h2 g" for m g
  proof -
    have "in_tree d h r m" using that(1) by (simp add: in_tree_shape [OF s2])
    from paths [OF this] obtain ps where "path_points fuel h m = Inr ps" by blast
    then show ?thesis by (simp add: path_to_root_def pr [OF that(2,1)])
  qed
  have le: "d \<le> fuel" using fuel by simp
  from clone_main [OF n2 tgt1 tgt2 wf2 le so2 pok]
  obtain h3 r' where cl: "clone fuel fuel h2 r = Inr (h3, r')"
    and post: "clone_post d h2 n h2 r h3 r'" by blast
  from post it2 have r': "r' = next_free h2"
    and m3: "mirrors d h2 h3 (next_free h3) r r'"
    and "\<exists>c. cloned_node (cells h3 n) = Some c \<and> finds d h2 h3 r r' n c"
    and tp: "parent (cells h3 r') = None"
    unfolding clone_post_def by auto
  then obtain c where cn: "cloned_node (cells h3 n) = Some c" and f3: "finds d h2 h3 r r' n c"
    by blast
  define hf where "hf = upd n (\<lambda>x. x\<lparr>cloned_node := None, cloned_target := None\<rparr>) h3"
  have res: "clone_from_root fuel h n None = Inr (hf, c)"
    unfolding clone_from_root_def
    using p1 gr cl cn by (simp add: Let_def h1_def h2_def hf_def)
  have kf: "cells hf x = cells h3 x" if "r' \<le> x" for x
    using that n2 by (simp add: hf_def upd_simps r')
  have nff: "next_free hf = next_free h3" by (simp add: hf_def upd_simps)
  have "mirrors d h2 hf (next_free h3) r r'"
    using m3 by (rule mirrors_same) (simp add: kf)
  then have mf: "mirrors d h hf (next_free hf) r r'"
    by (simp add: mirrors_shape [OF s2] nff)
  have "finds d h2 hf r r' n c"
    using m3 f3 by (rule finds_same) (simp add: kf)
  then have ff: "finds d h hf r r' n c"
    by (simp add: finds_shape [OF s2])
  have pk: "parent_kind hf r' = parent_kind h r"
    using tp r0 kf [of r'] by (simp add: parent_kind_def)
  from finds_sub [OF wf mf ff pk] obtain d' p' where d': "d' \<le> d" "wf_tree d' h p' n"
    "mirrors d' h hf (next_free hf) n c" "parent_kind hf c = parent_kind h n" by blast
  have "plain d' h n" using pl d'(1) by (rule plain_mono)
  with d' have "\<exists>d p. wf_tree d h p n \<and> mirrors d h hf (next_free hf) n c \<and>
      parent_kind hf c = parent_kind h n \<and> plain d h n" by blast
  from to_text_sim [OF mirrors_render_sim this]
  have same_text: "to_text fmt colr g hf c = to_text fmt colr g h n" for g .
  show ?thesis using res mf ff same_text r' nf2 by auto
qed

text \<open>
  The witness: the add node of \<open>2 * (a + b)\<close>, which renders as \<open>(a + b)\<close> below
  the multiply node.
\<close>

theorem C6_clone_from_root_witness:
  "wf_tree 3 heap_2ab None 4 \<and> in_tree 3 heap_2ab 4 2 \<and> plain 3 heap_2ab 2 \<and>
   to_text sample_fmt sample_colr 2 heap_2ab 2 = Inr ''(a + b)'' \<and>
   (\<exists>hf c r'. clone_from_root 4 heap_2ab 2 None = Inr (hf, c) \<and>
      mirrors 3 heap_2ab hf (next_free hf) 4 r' \<and> finds 3 heap_2ab hf 4 r' 2 c \<and>
      to_text sample_fmt sample_colr 2 hf c = Inr ''(a + b)'')"
proof -
  have w: "wf_tree 3 heap_2ab None 4"
    by (simp add: depth_numeral heap_2ab_cells blank_def)
  have i: "in_tree 3 heap_2ab 4 2"
    by (simp add: depth_numeral heap_2ab_cells blank_def)
  have p: "plain 3 heap_2ab 2"
    by (simp add: depth_numeral heap_2ab_cells blank_def)
  have t: "to_text sample_fmt sample_colr 2 heap_2ab 2 = Inr ''(a + b)''"
    by (simp add: fuel_numeral heap_2ab_cells blank_def Let_def is_unary_def isinstance_def
        with_color_def sample_fmt_def str_digit_def self_parens_def left_parens_def
        right_parens_def is_binary_def get_priority_def parens_if_def op_name_def)
  from C6_clone_from_root [OF w i _ p, of 4 sample_fmt sample_colr]
  obtain hf c r' where "clone_from_root 4 heap_2ab 2 None = Inr (hf, c)"
    "mirrors 3 heap_2ab hf (next_free hf) 4 r'" "finds 3 heap_2ab hf 4 r' 2 c"
    "to_text sample_fmt sample_colr 2 hf c = to_text sample_fmt sample_colr 2 heap_2ab 2"
    by auto
  then show ?thesis using w i p t by (auto simp del: to_text.simps)
qed

end
